theory Spec2Isabelle
  imports Main "HOL-Library.Sublist" "HOL-Library.Multiset"
begin

section \<open>File Browser: path confinement, listing, sorting and breadcrumbs\<close>

text \<open>
  A shallow embedding of \<^verbatim>\<open>main.go\<close>. Go strings are byte sequences, so a Go string is a
  \<^typ>\<open>string\<close> (a list of 8-bit characters). The program is built for Linux (see the
  Dockerfile), so \<^verbatim>\<open>os.PathSeparator\<close> is the slash, there are no volume names and
  \<^verbatim>\<open>filepath.ToSlash\<close> changes nothing.

  The functions of the Go standard library the handlers call (\<^verbatim>\<open>strings\<close>,
  \<^verbatim>\<open>path/filepath\<close>, \<^verbatim>\<open>net/url\<close>, \<^verbatim>\<open>sort\<close>) are modelled first, each under the
  name it has in Go; the functions of \<^verbatim>\<open>main.go\<close> follow.
\<close>

subsection \<open>Package strings\<close>

definition HasPrefix :: "string \<Rightarrow> string \<Rightarrow> bool" where
  "HasPrefix s pre = (length pre \<le> length s \<and> take (length pre) s = pre)"

definition TrimPrefix :: "string \<Rightarrow> string \<Rightarrow> string" where
  "TrimPrefix s pre = (if HasPrefix s pre then drop (length pre) s else s)"

text \<open>
  \<^verbatim>\<open>strings.ToLower\<close>. A string of ASCII bytes is lowercased byte by byte. Any other
  string goes through \<^verbatim>\<open>strings.Map(unicode.ToLower, s)\<close>: it is read rune by rune as
  UTF-8 (\<^verbatim>\<open>utf8.DecodeRuneInString\<close>: a byte that starts no valid encoding is the rune
  \<^verbatim>\<open>U+FFFD\<close> of width 1), every rune is mapped, and the results are written as UTF-8
  (\<^verbatim>\<open>utf8.AppendRune\<close>). A rune is its code point, a natural number.

  \<^verbatim>\<open>unicode.ToLower\<close> is written out for ASCII. Beyond ASCII it looks the rune up in the
  case tables of package \<^verbatim>\<open>unicode\<close>; that table is the parameter \<open>lower\<close> of
  \<open>ToLower\<close> and of every function of \<^verbatim>\<open>main.go\<close> that lowercases. What is proved
  with \<open>lower\<close> free holds for the table Go ships.
\<close>

definition RuneError :: nat where
  "RuneError = 0xFFFD"

definition DecodeRuneInString :: "string \<Rightarrow> nat \<times> nat" where
  "DecodeRuneInString s =
     (case s of
        [] \<Rightarrow> (RuneError, 0)
      | c0 # t0 \<Rightarrow>
          let s0 = (of_char c0 :: nat)
          in if s0 < 0x80 then (s0, 1)
             else if s0 < 0xC2 \<or> 0xF4 < s0 then (RuneError, 1)
             else
               let sz = (if s0 < 0xE0 then 2 else if s0 < 0xF0 then 3 else 4 :: nat);
                   lo = (if s0 = 0xE0 then 0xA0 else if s0 = 0xF0 then 0x90 else 0x80 :: nat);
                   hi = (if s0 = 0xED then 0x9F else if s0 = 0xF4 then 0x8F else 0xBF :: nat)
               in if length s < sz then (RuneError, 1)
                  else
                    (case t0 of
                       [] \<Rightarrow> (RuneError, 1)
                     | c1 # t1 \<Rightarrow>
                         let s1 = (of_char c1 :: nat)
                         in if s1 < lo \<or> hi < s1 then (RuneError, 1)
                            else if sz \<le> 2 then (s0 mod 0x20 * 0x40 + s1 mod 0x40, 2)
                            else
                              (case t1 of
                                 [] \<Rightarrow> (RuneError, 1)
                               | c2 # t2 \<Rightarrow>
                                   let s2 = (of_char c2 :: nat)
                                   in if s2 < 0x80 \<or> 0xBF < s2 then (RuneError, 1)
                                      else if sz \<le> 3
                                      then (s0 mod 0x10 * 0x1000 + s1 mod 0x40 * 0x40
                                              + s2 mod 0x40, 3)
                                      else
                                        (case t2 of
                                           [] \<Rightarrow> (RuneError, 1)
                                         | c3 # t3 \<Rightarrow>
                                             let s3 = (of_char c3 :: nat)
                                             in if s3 < 0x80 \<or> 0xBF < s3 then (RuneError, 1)
                                                else (s0 mod 0x08 * 0x40000 + s1 mod 0x40 * 0x1000
                                                        + s2 mod 0x40 * 0x40 + s3 mod 0x40, 4)))))"

definition AppendRune :: "nat \<Rightarrow> string" where
  "AppendRune r =
     (if r \<le> 0x7F then [char_of r]
      else if r \<le> 0x7FF then [char_of (0xC0 + r div 0x40), char_of (0x80 + r mod 0x40)]
      else
        let r = (if 0x10FFFF < r \<or> (0xD800 \<le> r \<and> r \<le> 0xDFFF) then RuneError else r)
        in if r \<le> 0xFFFF
           then [char_of (0xE0 + r div 0x1000), char_of (0x80 + r div 0x40 mod 0x40),
                 char_of (0x80 + r mod 0x40)]
           else [char_of (0xF0 + r div 0x40000), char_of (0x80 + r div 0x1000 mod 0x40),
                 char_of (0x80 + r div 0x40 mod 0x40), char_of (0x80 + r mod 0x40)])"

fun Map :: "(nat \<Rightarrow> nat) \<Rightarrow> string \<Rightarrow> string" where
  "Map mapping [] = []"
| "Map mapping (c # s) =
     (let (r, width) = DecodeRuneInString (c # s)
      in AppendRune (mapping r) @ Map mapping (drop (width - 1) s))"

definition unicode_ToLower :: "(nat \<Rightarrow> nat) \<Rightarrow> nat \<Rightarrow> nat" where
  "unicode_ToLower lower r =
     (if r \<le> 0x7F then (if 65 \<le> r \<and> r \<le> 90 then r + 32 else r) else lower r)"

definition lower_byte :: "char \<Rightarrow> char" where
  "lower_byte c =
     (let n = (of_char c :: nat) in if 65 \<le> n \<and> n \<le> 90 then char_of (n + 32) else c)"

definition ToLower :: "(nat \<Rightarrow> nat) \<Rightarrow> string \<Rightarrow> string" where
  "ToLower lower s =
     (if list_all (\<lambda>c. (of_char c :: nat) < 0x80) s then map lower_byte s
      else Map (unicode_ToLower lower) s)"

text \<open>\<^verbatim>\<open>strings.Contains s substr\<close>: \<^verbatim>\<open>substr\<close> occurs in \<^verbatim>\<open>s\<close> as a contiguous run.\<close>

fun Contains :: "string \<Rightarrow> string \<Rightarrow> bool" where
  "Contains [] sub = (sub = [])"
| "Contains (c # s) sub = (HasPrefix (c # s) sub \<or> Contains s sub)"

text \<open>\<^verbatim>\<open>strings.Split s sep\<close> for a separator of one byte.\<close>

fun Split :: "string \<Rightarrow> char \<Rightarrow> string list" where
  "Split [] sep = [[]]"
| "Split (c # s) sep =
     (if c = sep then [] # Split s sep
      else (case Split s sep of [] \<Rightarrow> [[c]] | p # ps \<Rightarrow> (c # p) # ps))"

text \<open>\<^verbatim>\<open>strings.Join elems sep\<close>.\<close>

fun strings_Join :: "string list \<Rightarrow> string \<Rightarrow> string" where
  "strings_Join [] sep = []"
| "strings_Join [e] sep = e"
| "strings_Join (e # e' # es) sep = e @ sep @ strings_Join (e' # es) sep"

text \<open>
  \<^verbatim>\<open>strings.TrimSpace\<close> removes from both ends every character that
  \<^verbatim>\<open>unicode.IsSpace\<close> accepts. These are finitely many code points; the list holds
  their UTF-8 encodings.
\<close>

definition space_runes :: "string list" where
  "space_runes =
     [[CHR 0x09], [CHR 0x0A], [CHR 0x0B],
      [CHR 0x0C], [CHR 0x0D], [CHR 0x20],
      [CHR 0xC2, CHR 0x85],
      [CHR 0xC2, CHR 0xA0],
      [CHR 0xE1, CHR 0x9A, CHR 0x80],
      [CHR 0xE2, CHR 0x80, CHR 0x80],
      [CHR 0xE2, CHR 0x80, CHR 0x81],
      [CHR 0xE2, CHR 0x80, CHR 0x82],
      [CHR 0xE2, CHR 0x80, CHR 0x83],
      [CHR 0xE2, CHR 0x80, CHR 0x84],
      [CHR 0xE2, CHR 0x80, CHR 0x85],
      [CHR 0xE2, CHR 0x80, CHR 0x86],
      [CHR 0xE2, CHR 0x80, CHR 0x87],
      [CHR 0xE2, CHR 0x80, CHR 0x88],
      [CHR 0xE2, CHR 0x80, CHR 0x89],
      [CHR 0xE2, CHR 0x80, CHR 0x8A],
      [CHR 0xE2, CHR 0x80, CHR 0xA8],
      [CHR 0xE2, CHR 0x80, CHR 0xA9],
      [CHR 0xE2, CHR 0x80, CHR 0xAF],
      [CHR 0xE2, CHR 0x81, CHR 0x9F],
      [CHR 0xE3, CHR 0x80, CHR 0x80]]"

text \<open>The length of the first of the given byte sequences that the string starts with.\<close>

fun leading :: "string list \<Rightarrow> string \<Rightarrow> nat option" where
  "leading [] s = None"
| "leading (r # rs) s = (if r \<noteq> [] \<and> HasPrefix s r then Some (length r) else leading rs s)"

function TrimLeft :: "string list \<Rightarrow> string \<Rightarrow> string" where
  "TrimLeft rs s = (case leading rs s of None \<Rightarrow> s | Some n \<Rightarrow> TrimLeft rs (drop n s))"
  by pat_completeness auto
termination
proof (relation "measure (\<lambda>(rs, s). length s)")
  show "wf (measure (\<lambda>(rs, s). length s))"
    by simp
next
  fix rs :: "string list" and s :: string and n :: nat
  assume "leading rs s = Some n"
  then have "0 < n \<and> n \<le> length s"
    by (induction rs) (auto simp: HasPrefix_def split: if_splits)
  then show "((rs, drop n s), (rs, s)) \<in> measure (\<lambda>(rs, s). length s)"
    by auto
qed

declare TrimLeft.simps [simp del]

definition TrimSpace :: "string \<Rightarrow> string" where
  "TrimSpace s = rev (TrimLeft (map rev space_runes) (rev (TrimLeft space_runes s)))"

subsection \<open>Package path/filepath (Unix)\<close>

text \<open>
  \<^verbatim>\<open>filepath.Clean\<close> reads the path element by element and keeps the elements of the
  result in a buffer: an empty element and \<^verbatim>\<open>.\<close> are dropped; \<^verbatim>\<open>..\<close> removes the last
  element of the buffer when that is a name, is dropped at the top of a rooted path, and is
  appended to an unrooted path that has no name left to remove; any other element is
  appended. The buffer is kept here as the list of its elements, last element first.
\<close>

definition clean_elem :: "bool \<Rightarrow> string list \<Rightarrow> string \<Rightarrow> string list" where
  "clean_elem rooted out e =
     (if e = [] \<or> e = ''.'' then out
      else if e = ''..'' then
        (if out \<noteq> [] \<and> hd out \<noteq> ''..'' then tl out
         else if \<not> rooted then ''..'' # out
         else out)
      else e # out)"

definition clean_elems :: "bool \<Rightarrow> string list \<Rightarrow> string list" where
  "clean_elems rooted es = rev (foldl (clean_elem rooted) [] es)"

definition IsAbs :: "string \<Rightarrow> bool" where
  "IsAbs path = HasPrefix path ''/''"

definition Clean :: "string \<Rightarrow> string" where
  "Clean path =
     (if path = [] then ''.''
      else
        let rooted = IsAbs path;
            out = clean_elems rooted (Split path (CHR ''/''))
        in if rooted then ''/'' @ strings_Join out ''/''
           else if out = [] then ''.''
           else strings_Join out ''/'')"

text \<open>\<^verbatim>\<open>filepath.Join\<close>: leading empty elements are ignored, the rest is joined and cleaned.\<close>

fun Join :: "string list \<Rightarrow> string" where
  "Join [] = []"
| "Join (e # es) = (if e = [] then Join es else Clean (strings_Join (e # es) ''/''))"

text \<open>
  \<^verbatim>\<open>filepath.Abs\<close> needs the working directory for a relative path, and fails when
  \<^verbatim>\<open>os.Getwd\<close> fails: the argument \<open>wd\<close> is the result of \<^verbatim>\<open>os.Getwd\<close>,
  \<open>None\<close> for its error.
\<close>

definition Abs :: "string option \<Rightarrow> string \<Rightarrow> string option" where
  "Abs wd path =
     (if IsAbs path then Some (Clean path)
      else (case wd of None \<Rightarrow> None | Some d \<Rightarrow> Some (Join [d, path])))"

definition ToSlash :: "string \<Rightarrow> string" where
  "ToSlash path = path"

text \<open>\<^verbatim>\<open>filepath.Base\<close>: the last element of the path, trailing slashes removed first.\<close>

definition Base :: "string \<Rightarrow> string" where
  "Base path =
     (if path = [] then ''.''
      else
        let p = rev (dropWhile (\<lambda>c. c = CHR ''/'') (rev path));
            b = rev (takeWhile (\<lambda>c. c \<noteq> CHR ''/'') (rev p))
        in if b = [] then ''/'' else b)"

subsection \<open>Package net/url\<close>

text \<open>
  \<^verbatim>\<open>url.QueryEscape\<close>: letters, digits and \<^verbatim>\<open>-_.~\<close> are kept, a space becomes
  \<^verbatim>\<open>+\<close>, every other byte becomes \<^verbatim>\<open>%XX\<close> in upper-case hexadecimal.
\<close>

definition upperhex :: "nat \<Rightarrow> char" where
  "upperhex n = ''0123456789ABCDEF'' ! (n mod 16)"

definition unreserved :: "char \<Rightarrow> bool" where
  "unreserved c =
     (let n = (of_char c :: nat)
      in (97 \<le> n \<and> n \<le> 122) \<or> (65 \<le> n \<and> n \<le> 90) \<or> (48 \<le> n \<and> n \<le> 57)
         \<or> c = CHR ''-'' \<or> c = CHR ''_'' \<or> c = CHR ''.'' \<or> c = CHR ''~'')"

definition escape_byte :: "char \<Rightarrow> string" where
  "escape_byte c =
     (if unreserved c then [c]
      else if c = CHR '' '' then ''+''
      else [CHR ''%'', upperhex (of_char c div 16), upperhex (of_char c mod 16)])"

definition QueryEscape :: "string \<Rightarrow> string" where
  "QueryEscape s = concat (map escape_byte s)"

text \<open>
  \<^verbatim>\<open>url.QueryUnescape\<close>, the inverse the server applies to the parameters of a request:
  \<^verbatim>\<open>+\<close> is a space, \<^verbatim>\<open>%XX\<close> is the byte with that hexadecimal code, and a \<^verbatim>\<open>%\<close>
  that is not followed by two hexadecimal digits is an error.
\<close>

definition ishex :: "char \<Rightarrow> bool" where
  "ishex c =
     (let n = (of_char c :: nat)
      in (48 \<le> n \<and> n \<le> 57) \<or> (97 \<le> n \<and> n \<le> 102) \<or> (65 \<le> n \<and> n \<le> 70))"

definition unhex :: "char \<Rightarrow> nat" where
  "unhex c =
     (let n = (of_char c :: nat)
      in if 48 \<le> n \<and> n \<le> 57 then n - 48
         else if 97 \<le> n \<and> n \<le> 102 then n - 97 + 10
         else if 65 \<le> n \<and> n \<le> 70 then n - 65 + 10
         else 0)"

fun QueryUnescape :: "string \<Rightarrow> string option" where
  "QueryUnescape [] = Some []"
| "QueryUnescape (c # s) =
     (if c = CHR ''%'' then
        (case s of
           h # l # s' \<Rightarrow>
             if ishex h \<and> ishex l
             then map_option ((#) (char_of (unhex h * 16 + unhex l))) (QueryUnescape s')
             else None
         | _ \<Rightarrow> None)
      else if c = CHR ''+'' then map_option ((#) (CHR '' '')) (QueryUnescape s)
      else map_option ((#) c) (QueryUnescape s))"

text \<open>\<^verbatim>\<open>url.Values{"path": {p}}.Encode()\<close>: the one key, \<^verbatim>\<open>=\<close>, the escaped value.\<close>

definition Encode_path :: "string \<Rightarrow> string" where
  "Encode_path p = ''path='' @ QueryEscape p"

text \<open>
  \<^verbatim>\<open>r.URL.Query().Get(key)\<close>: the request's query is the list of its decoded
  parameters in the order they were sent; \<^verbatim>\<open>Get\<close> is the first value of the key, and the
  empty string when the key is absent.
\<close>

type_synonym request = "(string \<times> string) list"

fun Get :: "request \<Rightarrow> string \<Rightarrow> string" where
  "Get [] key = []"
| "Get ((k, v) # r) key = (if k = key then v else Get r key)"

subsection \<open>Package sort\<close>

text \<open>
  \<^verbatim>\<open>sort.Slice\<close> sorts a slice of at most 12 elements with \<^verbatim>\<open>insertionSort_func\<close>:
  \<^verbatim>\<open>
  for i := a + 1; i < b; i++ {
      for j := i; j > a && data.Less(j, j-1); j-- {
          data.Swap(j, j-1)
      }
  }
  \<close>
  The closure \<^verbatim>\<open>less\<close> of the caller reads the slice at two indices, so it is a relation
  on the elements that are at those indices when it is called. Longer slices go through
  pattern-defeating quicksort, which is not modelled: what is proved about the order of
  the rows is proved for slices that take the insertion sort.
\<close>

fun sift :: "('a \<Rightarrow> 'a \<Rightarrow> bool) \<Rightarrow> nat \<Rightarrow> 'a list \<Rightarrow> 'a list" where
  "sift lt 0 xs = xs"
| "sift lt (Suc j) xs =
     (if lt (xs ! Suc j) (xs ! j)
      then sift lt j (xs[Suc j := xs ! j, j := xs ! Suc j])
      else xs)"

definition insertionSort :: "('a \<Rightarrow> 'a \<Rightarrow> bool) \<Rightarrow> 'a list \<Rightarrow> 'a list" where
  "insertionSort lt xs = foldl (\<lambda>ys i. sift lt i ys) xs [1 ..< length xs]"

definition sort_Slice :: "'a list \<Rightarrow> ('a \<Rightarrow> 'a \<Rightarrow> bool) \<Rightarrow> 'a list" where
  "sort_Slice xs lt = insertionSort lt xs"

subsection \<open>The filesystem and the response\<close>

text \<open>
  The filesystem is the handlers' collaborator. \<^verbatim>\<open>os.ReadDir\<close>, \<^verbatim>\<open>os.Stat\<close> and
  \<^verbatim>\<open>os.Getwd\<close> are fields of a record of functions, an error of the operating system is a
  value (\<^verbatim>\<open>*fs.PathError\<close>: operation, path, cause), and \<^verbatim>\<open>DirEntry.Info\<close> can
  fail for each entry by itself. Sizes and modification times are integers; they are only
  compared.
\<close>

datatype errno = ENOENT | ENOTDIR | EACCES | EIO

datatype PathError = PathError string string errno

fun strerror :: "errno \<Rightarrow> string" where
  "strerror ENOENT = ''no such file or directory''"
| "strerror ENOTDIR = ''not a directory''"
| "strerror EACCES = ''permission denied''"
| "strerror EIO = ''input/output error''"

fun Error_text :: "PathError \<Rightarrow> string" where
  "Error_text (PathError op path err) = op @ '' '' @ path @ '': '' @ strerror err"

record FileInfo =
  Size :: int
  ModTime :: int
  IsDir :: bool

record DirEntry =
  Name :: string
  IsDir :: bool
  Info :: "PathError + FileInfo"

record filesystem =
  ReadDir :: "string \<Rightarrow> PathError + DirEntry list"
  Stat :: "string \<Rightarrow> PathError + FileInfo"
  Getwd :: "string option"

subsection \<open>The types of main.go\<close>

record fileRow =
  Name :: string
  RelPath :: string
  IsDir :: bool
  SizeBytes :: int
  ModTime :: int

record crumb =
  Name :: string
  URL :: string

record pageData =
  Rows :: "fileRow list"
  Path :: string
  Q :: string
  Sort :: string
  Order :: string
  Breadcrumbs :: "crumb list"

text \<open>
  What a handler does with its \<^verbatim>\<open>ResponseWriter\<close>: \<^verbatim>\<open>http.Error\<close> with a message and
  a status, \<^verbatim>\<open>http.Redirect\<close> with a target and a status, the template executed on the
  page data, or a file served under a file name (the name that goes, quoted, into the
  \<^verbatim>\<open>Content-Disposition\<close> header). A handler that panics answers nothing.
\<close>

datatype panic = IndexOutOfRange

datatype response =
    Error string nat
  | Redirect string nat
  | ExecuteTemplate string pageData
  | ServeFile string string
  | Panic panic

definition StatusBadRequest :: nat where "StatusBadRequest = 400"

definition StatusNotFound :: nat where "StatusNotFound = 404"

definition StatusInternalServerError :: nat where "StatusInternalServerError = 500"

definition StatusSeeOther :: nat where "StatusSeeOther = 303"

text \<open>\<^verbatim>\<open>http.NotFound\<close> is \<^verbatim>\<open>http.Error\<close> with the status 404.\<close>

definition NotFound :: response where
  "NotFound = Error ''404 page not found'' StatusNotFound"

subsection \<open>The functions of main.go\<close>

text \<open>
  \<^verbatim>\<open>getenv\<close>: the value of the variable, or the default when the variable is unset or
  empty (\<^verbatim>\<open>os.Getenv\<close> gives the empty string for both). \<^verbatim>\<open>main\<close> sets the global
  \<^verbatim>\<open>rootDir\<close> with it, so the root directory of the handlers is never the empty string.
\<close>

definition getenv :: "(string \<Rightarrow> string) \<Rightarrow> string \<Rightarrow> string \<Rightarrow> string" where
  "getenv env k def = (let v = env k in if v \<noteq> [] then v else def)"

definition main_rootDir :: "(string \<Rightarrow> string) \<Rightarrow> string" where
  "main_rootDir env = getenv env ''ROOT_DIR'' ''/data''"

text \<open>
  \<^verbatim>\<open>pick\<close> lowercases the value, returns it when it is one of the options, and returns
  the first option otherwise. \<^verbatim>\<open>opts[0]\<close> panics on an empty option list.
\<close>

fun pick_loop :: "string \<Rightarrow> string list \<Rightarrow> string option" where
  "pick_loop v [] = None"
| "pick_loop v (opt # opts) = (if v = opt then Some v else pick_loop v opts)"

definition pick :: "(nat \<Rightarrow> nat) \<Rightarrow> string \<Rightarrow> string list \<Rightarrow> panic + string" where
  "pick lower v opts =
     (let v = ToLower lower v
      in case pick_loop v opts of
           Some r \<Rightarrow> Inr r
         | None \<Rightarrow> (case opts of [] \<Rightarrow> Inl IndexOutOfRange | opt # _ \<Rightarrow> Inr opt))"

text \<open>\<^verbatim>\<open>isWithin\<close>; \<open>wd\<close> is what \<^verbatim>\<open>os.Getwd\<close> returns while it runs.\<close>

definition isWithin :: "string option \<Rightarrow> string \<Rightarrow> string \<Rightarrow> bool" where
  "isWithin wd p root =
     (case Abs wd p of
        None \<Rightarrow> False
      | Some pAbs \<Rightarrow>
          (case Abs wd root of
             None \<Rightarrow> False
           | Some rootAbs \<Rightarrow>
               let pAbs = Clean pAbs;
                   rootAbs = Clean rootAbs;
                   sep = ''/''
               in HasPrefix (pAbs @ sep) (rootAbs @ sep) \<or> pAbs = rootAbs))"

text \<open>\<^verbatim>\<open>crumbsFor\<close>: the loop over the parts carries \<^verbatim>\<open>acc\<close>.\<close>

fun crumbs_loop :: "string \<Rightarrow> string list \<Rightarrow> crumb list" where
  "crumbs_loop acc [] = []"
| "crumbs_loop acc (p # parts) =
     (if p = ''.'' \<or> p = [] then crumbs_loop acc parts
      else
        let acc = (if acc = [] then p else acc @ ''/'' @ p)
        in \<lparr>crumb.Name = p, URL = ''/?'' @ Encode_path acc\<rparr> # crumbs_loop acc parts)"

definition crumbsFor :: "string \<Rightarrow> crumb list" where
  "crumbsFor rel =
     (if rel = [] then [] else crumbs_loop [] (Split (ToSlash rel) (CHR ''/'')))"

text \<open>
  The loop of \<^verbatim>\<open>listHandler\<close> over the directory entries: an entry whose \<^verbatim>\<open>Info\<close>
  fails is passed over, a row is made for every other entry (\<open>row_of\<close> is the struct
  literal) and appended when it matches the query.
\<close>

definition row_of :: "string \<Rightarrow> DirEntry \<Rightarrow> FileInfo \<Rightarrow> fileRow" where
  "row_of rel e info =
     \<lparr>fileRow.Name = DirEntry.Name e,
      RelPath = ToSlash (Join [rel, DirEntry.Name e]),
      IsDir = DirEntry.IsDir e,
      SizeBytes = Size info,
      ModTime = FileInfo.ModTime info\<rparr>"

fun list_rows ::
  "(nat \<Rightarrow> nat) \<Rightarrow> string \<Rightarrow> string \<Rightarrow> DirEntry list \<Rightarrow> fileRow list" where
  "list_rows lower rel q [] = []"
| "list_rows lower rel q (e # entries) =
     (case Info e of
        Inl err \<Rightarrow> list_rows lower rel q entries
      | Inr info \<Rightarrow>
          let row = row_of rel e info
          in if q = [] \<or> Contains (ToLower lower (fileRow.Name row)) (ToLower lower q)
             then row # list_rows lower rel q entries
             else list_rows lower rel q entries)"

text \<open>Go compares strings byte by byte, a proper prefix being smaller.\<close>

fun string_less :: "string \<Rightarrow> string \<Rightarrow> bool" where
  "string_less [] [] = False"
| "string_less [] (b # t) = True"
| "string_less (a # s) [] = False"
| "string_less (a # s) (b # t) =
     ((of_char a :: nat) < of_char b \<or> (a = b \<and> string_less s t))"

text \<open>The closure given to \<^verbatim>\<open>sort.Slice\<close>, on the two rows it reads.\<close>

definition less_rows ::
  "(nat \<Rightarrow> nat) \<Rightarrow> string \<Rightarrow> string \<Rightarrow> fileRow \<Rightarrow> fileRow \<Rightarrow> bool" where
  "less_rows lower sortBy order ri rj =
     (let less =
        (if sortBy = ''size'' then
           (if fileRow.IsDir ri \<noteq> fileRow.IsDir rj
            then fileRow.IsDir ri \<and> \<not> fileRow.IsDir rj
            else SizeBytes ri < SizeBytes rj)
         else if sortBy = ''mod'' then fileRow.ModTime ri < fileRow.ModTime rj
         else
           (if fileRow.IsDir ri \<noteq> fileRow.IsDir rj
            then fileRow.IsDir ri \<and> \<not> fileRow.IsDir rj
            else string_less (ToLower lower (fileRow.Name ri)) (ToLower lower (fileRow.Name rj))))
      in if order = ''desc'' then \<not> less else less)"

text \<open>
  \<^verbatim>\<open>listHandler\<close>. \<open>rootDir\<close> is the global variable set in \<^verbatim>\<open>main\<close>. The handler
  ends by executing the template on the page data, which is the presentation's work.
\<close>

definition listHandler ::
  "(nat \<Rightarrow> nat) \<Rightarrow> filesystem \<Rightarrow> string \<Rightarrow> request \<Rightarrow> response" where
  "listHandler lower fs rootDir r =
     (let q = TrimSpace (Get r ''q'')
      in case pick lower (Get r ''sort'') [''name'', ''size'', ''mod''] of
           Inl p \<Rightarrow> Panic p
         | Inr sortBy \<Rightarrow>
      (case pick lower (Get r ''order'') [''asc'', ''desc''] of
           Inl p \<Rightarrow> Panic p
         | Inr order \<Rightarrow>
      let rel = Clean (TrimPrefix (Get r ''path'') ''/'');
          rel = (if rel = ''.'' then [] else rel);
          abs = Join [rootDir, rel]
      in if \<not> isWithin (Getwd fs) abs rootDir then Error ''invalid path'' StatusBadRequest
         else
           (case ReadDir fs abs of
              Inl err \<Rightarrow> Error (Error_text err) StatusInternalServerError
            | Inr entries \<Rightarrow>
                let rows = sort_Slice (list_rows lower rel q entries) (less_rows lower sortBy order)
                in ExecuteTemplate ''index.html''
                     \<lparr>Rows = rows, Path = rel, Q = q, Sort = sortBy, Order = order,
                      Breadcrumbs = crumbsFor rel\<rparr>)))"

text \<open>\<^verbatim>\<open>downloadHandler\<close>.\<close>

definition downloadHandler :: "filesystem \<Rightarrow> string \<Rightarrow> request \<Rightarrow> response" where
  "downloadHandler fs rootDir r =
     (let rel = Clean (TrimPrefix (Get r ''path'') ''/'');
          abs = Join [rootDir, rel]
      in if \<not> isWithin (Getwd fs) abs rootDir then Error ''invalid path'' StatusBadRequest
         else
           (case Stat fs abs of
              Inl err \<Rightarrow> NotFound
            | Inr info \<Rightarrow>
                if FileInfo.IsDir info
                then Redirect (''/?'' @ Encode_path rel) StatusSeeOther
                else ServeFile (Base abs) abs))"

subsection \<open>Notions the properties are stated with\<close>

text \<open>
  The path resolution of \<^verbatim>\<open>listHandler\<close> (the lines from \<^verbatim>\<open>rel := filepath.Clean(...)\<close>
  to the containment check) as a function of its own: the relative path and the absolute
  path the handler goes on with, or \<open>None\<close> where it answers \<^verbatim>\<open>invalid path\<close>.
\<close>

definition resolve :: "string option \<Rightarrow> string \<Rightarrow> string \<Rightarrow> (string \<times> string) option" where
  "resolve wd rootDir path =
     (let rel = Clean (TrimPrefix path ''/'');
          rel = (if rel = ''.'' then [] else rel);
          abs = Join [rootDir, rel]
      in if \<not> isWithin wd abs rootDir then None else Some (rel, abs))"

text \<open>
  The navigation path of a breadcrumb or of a redirect: what a handler reads back as the
  \<^verbatim>\<open>path\<close> parameter from a link of the form \<^verbatim>\<open>/?path=...\<close>. (The links the program
  makes have this one parameter, and its escaped value holds no \<^verbatim>\<open>&\<close>, so the query
  needs no splitting.)
\<close>

definition navigationPath :: "string \<Rightarrow> string option" where
  "navigationPath url =
     (if HasPrefix url ''/?path='' then QueryUnescape (drop (length ''/?path='') url) else None)"

text \<open>
  An element of a path that names something: not empty, not \<^verbatim>\<open>.\<close>, not \<^verbatim>\<open>..\<close>, and
  free of the separator. The names of the entries of a directory are such elements.
\<close>

definition name_elem :: "string \<Rightarrow> bool" where
  "name_elem e = (e \<noteq> [] \<and> e \<noteq> ''.'' \<and> e \<noteq> ''..'' \<and> CHR ''/'' \<notin> set e)"

subsection \<open>A directory tree for the examples\<close>

text \<open>
  \<^verbatim>\<open>/data\<close> holds the directory \<^verbatim>\<open>docs\<close>, the files \<^verbatim>\<open>Readme.txt\<close> and
  \<^verbatim>\<open>score.csv\<close>, an entry \<^verbatim>\<open>broken\<close> whose \<^verbatim>\<open>Info\<close> fails, and a directory
  \<^verbatim>\<open>locked\<close> that cannot be read; \<^verbatim>\<open>/data/docs\<close> holds the directory \<^verbatim>\<open>dirA\<close>
  (of size 100) and the files \<^verbatim>\<open>fileB\<close> (of size 1) and \<^verbatim>\<open>fileZ\<close> (of size 50).
\<close>

definition ex_dir :: FileInfo where
  "ex_dir = \<lparr>Size = 4096, ModTime = 10, IsDir = True\<rparr>"

definition ex_file :: "int \<Rightarrow> int \<Rightarrow> FileInfo" where
  "ex_file sz t = \<lparr>Size = sz, ModTime = t, IsDir = False\<rparr>"

definition ex_entries :: "DirEntry list" where
  "ex_entries =
     [\<lparr>DirEntry.Name = ''Readme.txt'', IsDir = False, Info = Inr (ex_file 120 30)\<rparr>,
      \<lparr>DirEntry.Name = ''broken'', IsDir = False,
       Info = Inl (PathError ''lstat'' ''/data/broken'' ENOENT)\<rparr>,
      \<lparr>DirEntry.Name = ''docs'', IsDir = True, Info = Inr ex_dir\<rparr>,
      \<lparr>DirEntry.Name = ''locked'', IsDir = True, Info = Inr ex_dir\<rparr>,
      \<lparr>DirEntry.Name = ''score.csv'', IsDir = False, Info = Inr (ex_file 7 20)\<rparr>]"

definition ex_docs :: "DirEntry list" where
  "ex_docs =
     [\<lparr>DirEntry.Name = ''dirA'', IsDir = True,
       Info = Inr \<lparr>Size = 100, ModTime = 50, IsDir = True\<rparr>\<rparr>,
      \<lparr>DirEntry.Name = ''fileB'', IsDir = False, Info = Inr (ex_file 1 60)\<rparr>,
      \<lparr>DirEntry.Name = ''fileZ'', IsDir = False, Info = Inr (ex_file 50 40)\<rparr>]"

definition ex_fs :: filesystem where
  "ex_fs =
     \<lparr>ReadDir = (\<lambda>p. if p = ''/data'' then Inr ex_entries
                     else if p = ''/data/docs'' then Inr ex_docs
                     else if p = ''/data/locked'' then Inl (PathError ''open'' p EACCES)
                     else if p = ''/data/Readme.txt'' \<or> p = ''/data/score.csv''
                       then Inl (PathError ''readdirent'' p ENOTDIR)
                     else Inl (PathError ''open'' p ENOENT)),
      Stat = (\<lambda>p. if p = ''/data'' \<or> p = ''/data/docs'' \<or> p = ''/data/locked'' then Inr ex_dir
                  else if p = ''/data/Readme.txt'' then Inr (ex_file 120 30)
                  else if p = ''/data/score.csv'' then Inr (ex_file 7 20)
                  else if p = ''/data/docs/dirA'' then Inr \<lparr>Size = 100, ModTime = 50, IsDir = True\<rparr>
                  else if p = ''/data/docs/fileB'' then Inr (ex_file 1 60)
                  else if p = ''/data/docs/fileZ'' then Inr (ex_file 50 40)
                  else Inl (PathError ''stat'' p ENOENT)),
      Getwd = Some ''/app''\<rparr>"

section \<open>Lemmas\<close>

subsection \<open>pick\<close>

lemma pick_loop_eq: "pick_loop v opts = (if v \<in> set opts then Some v else None)"
  by (induction opts) auto

lemma pick_Cons:
  "pick lower v (opt # opts) = Inr (if ToLower lower v \<in> set (opt # opts) then ToLower lower v else opt)"
  by (simp add: pick_def pick_loop_eq Let_def)

lemma case_pick:
  "(case pick lower v (opt # opts) of Inl p \<Rightarrow> f p | Inr s \<Rightarrow> g s) = g (projr (pick lower v (opt # opts)))"
  by (simp add: pick_Cons)

subsection \<open>The shape of listHandler\<close>

lemma listHandler_resolve:
  "listHandler lower fs rootDir r =
     (case resolve (Getwd fs) rootDir (Get r ''path'') of
        None \<Rightarrow> Error ''invalid path'' StatusBadRequest
      | Some (rel, a) \<Rightarrow>
          (case ReadDir fs a of
             Inl err \<Rightarrow> Error (Error_text err) StatusInternalServerError
           | Inr entries \<Rightarrow>
               ExecuteTemplate ''index.html''
                 \<lparr>Rows = sort_Slice (list_rows lower rel (TrimSpace (Get r ''q'')) entries)
                           (less_rows lower (projr (pick lower (Get r ''sort'') [''name'', ''size'', ''mod'']))
                                      (projr (pick lower (Get r ''order'') [''asc'', ''desc'']))),
                  Path = rel, Q = TrimSpace (Get r ''q''),
                  Sort = projr (pick lower (Get r ''sort'') [''name'', ''size'', ''mod'']),
                  Order = projr (pick lower (Get r ''order'') [''asc'', ''desc'']),
                  Breadcrumbs = crumbsFor rel\<rparr>))"
  unfolding listHandler_def resolve_def Let_def case_pick by simp

lemma listHandler_page:
  assumes "resolve (Getwd fs) rootDir (Get r ''path'') = Some (rel, a)"
    and "ReadDir fs a = Inr entries"
  shows "listHandler lower fs rootDir r =
     ExecuteTemplate ''index.html''
       \<lparr>Rows = sort_Slice (list_rows lower rel (TrimSpace (Get r ''q'')) entries)
                 (less_rows lower (projr (pick lower (Get r ''sort'') [''name'', ''size'', ''mod'']))
                            (projr (pick lower (Get r ''order'') [''asc'', ''desc'']))),
        Path = rel, Q = TrimSpace (Get r ''q''),
        Sort = projr (pick lower (Get r ''sort'') [''name'', ''size'', ''mod'']),
        Order = projr (pick lower (Get r ''order'') [''asc'', ''desc'']),
        Breadcrumbs = crumbsFor rel\<rparr>"
  by (simp add: listHandler_resolve assms)

lemma listHandler_pageD:
  assumes "listHandler lower fs rootDir r = ExecuteTemplate t d"
  shows "Sort d = projr (pick lower (Get r ''sort'') [''name'', ''size'', ''mod''])"
    and "Order d = projr (pick lower (Get r ''order'') [''asc'', ''desc''])"
    and "Q d = TrimSpace (Get r ''q'')"
  using assms by (auto simp: listHandler_resolve split: option.splits sum.splits)

lemma listHandler_read_error:
  assumes "resolve (Getwd fs) rootDir (Get r ''path'') = Some (rel, a)"
    and "ReadDir fs a = Inl err"
  shows "listHandler lower fs rootDir r = Error (Error_text err) StatusInternalServerError"
  by (simp add: listHandler_resolve assms)

subsection \<open>The insertion sort permutes\<close>

lemma mset_sift: "j < length xs \<Longrightarrow> mset (sift lt j xs) = mset xs"
proof (induction j arbitrary: xs)
  case 0
  then show ?case by simp
next
  case (Suc j)
  have "mset (xs[Suc j := xs ! j, j := xs ! Suc j]) = mset xs"
    using Suc.prems by (simp add: mset_swap)
  with Suc show ?case by simp
qed

lemma length_sift: "length (sift lt j xs) = length xs"
  by (induction j arbitrary: xs) simp_all

lemma mset_sift_fold:
  "\<forall>i \<in> set is. i < length xs \<Longrightarrow> mset (foldl (\<lambda>ys i. sift lt i ys) xs is) = mset xs"
  by (induction "is" arbitrary: xs) (simp_all add: mset_sift length_sift)

lemma mset_sort_Slice: "mset (sort_Slice xs lt) = mset xs"
  by (simp add: sort_Slice_def insertionSort_def mset_sift_fold)


subsection \<open>The rows of a listing\<close>

lemma row_of_Name: "fileRow.Name (row_of rel e info) = DirEntry.Name e"
  by (simp add: row_of_def)

lemma list_rows_eq:
  "list_rows lower rel q entries =
     map (\<lambda>e. row_of rel e (projr (Info e)))
       (filter (\<lambda>e. \<not> isl (Info e) \<and> (q = [] \<or> Contains (ToLower lower (DirEntry.Name e)) (ToLower lower q)))
          entries)"
  by (induction entries) (auto simp: row_of_def Let_def split: sum.splits)

lemma HasPrefix_iff: "HasPrefix s pre \<longleftrightarrow> prefix pre s"
  by (auto simp: HasPrefix_def prefix_def) (metis append_eq_conv_conj)


subsection \<open>Splitting and joining\<close>

lemma Split_not_Nil: "Split s c \<noteq> []"
  by (induction s) (auto split: list.splits)

lemma Split_no_sep: "c \<notin> set s \<Longrightarrow> Split s c = [s]"
  by (induction s) auto

lemma Split_append_sep: "Split (a @ c # b) c = Split a c @ Split b c"
proof (induction a)
  case Nil
  show ?case by simp
next
  case (Cons x a)
  obtain p ps where "Split a c = p # ps"
    using Split_not_Nil [of a c] by (cases "Split a c") auto
  with Cons show ?case by simp
qed

lemma Split_sep_free: "s \<in> set (Split p c) \<Longrightarrow> c \<notin> set s"
proof (induction p arbitrary: s)
  case Nil
  then show ?case by simp
next
  case (Cons x p)
  then show ?case
    by (cases "Split p c") (auto split: if_splits)
qed

lemma strings_Join_snoc:
  "strings_Join (pre @ [p]) sep = (if pre = [] then p else strings_Join pre sep @ sep @ p)"
  by (induction pre sep rule: strings_Join.induct) auto

lemma strings_Join_Nil_iff:
  "\<forall>s \<in> set es. s \<noteq> [] \<Longrightarrow> strings_Join es sep = [] \<longleftrightarrow> es = []"
  by (induction es sep rule: strings_Join.induct) auto

lemma Split_strings_Join:
  "es \<noteq> [] \<Longrightarrow> \<forall>s \<in> set es. c \<notin> set s \<Longrightarrow> Split (strings_Join es [c]) c = es"
proof (induction es "[c]" rule: strings_Join.induct)
  case 1
  then show ?case by simp
next
  case (2 e)
  then show ?case by (simp add: Split_no_sep)
next
  case (3 e e' es)
  then show ?case by (simp add: Split_append_sep Split_no_sep)
qed

lemma strings_Join_not_dot:
  assumes "es \<noteq> []" and "\<forall>s \<in> set es. s \<noteq> ''.'' \<and> CHR ''/'' \<notin> set s"
  shows "strings_Join es ''/'' \<noteq> ''.''"
proof
  assume "strings_Join es ''/'' = ''.''"
  moreover have "Split (strings_Join es ''/'') (CHR ''/'') = es"
    using assms by (intro Split_strings_Join) auto
  ultimately have "es = [''.'']"
    by simp
  with assms(2) show False
    by simp
qed

lemma strings_Join_hd:
  "e \<noteq> [] \<Longrightarrow> strings_Join (e # es) sep = hd e # tl (strings_Join (e # es) sep)"
  by (cases es; cases e) auto

subsection \<open>Breadcrumbs\<close>

lemma crumbs_loop_eq:
  assumes "\<forall>s \<in> set segs. s \<noteq> [] \<and> s \<noteq> ''.''" and "\<forall>s \<in> set pre. s \<noteq> []"
  shows "crumbs_loop (strings_Join pre ''/'') segs =
     map (\<lambda>i. \<lparr>crumb.Name = segs ! i,
                URL = ''/?'' @ Encode_path (strings_Join (pre @ take (Suc i) segs) ''/'')\<rparr>)
       [0 ..< length segs]"
  using assms
proof (induction segs arbitrary: pre)
  case Nil
  show ?case by simp
next
  case (Cons p segs)
  have acc: "(if strings_Join pre ''/'' = [] then p else strings_Join pre ''/'' @ ''/'' @ p)
      = strings_Join (pre @ [p]) ''/''"
    using Cons.prems(2) by (simp add: strings_Join_snoc strings_Join_Nil_iff)
  have ih: "crumbs_loop (strings_Join (pre @ [p]) ''/'') segs =
     map (\<lambda>i. \<lparr>crumb.Name = segs ! i,
                URL = ''/?'' @ Encode_path (strings_Join ((pre @ [p]) @ take (Suc i) segs) ''/'')\<rparr>)
       [0 ..< length segs]"
    using Cons.prems by (intro Cons.IH) auto
  have "p \<noteq> ''.''" "p \<noteq> []"
    using Cons.prems(1) by auto
  have shift: "[Suc 0 ..< Suc (length segs)] = map Suc [0 ..< length segs]"
    by (simp only: map_Suc_upt)
  from \<open>p \<noteq> ''.''\<close> \<open>p \<noteq> []\<close> show ?case
    by (simp add: acc ih Let_def upt_conv_Cons shift del: upt_Suc)
qed

subsection \<open>Query escaping can be undone\<close>

lemma upperhex_hex_all: "list_all (\<lambda>n. ishex (upperhex n) \<and> unhex (upperhex n) = n) [0 ..< 16]"
  by (simp add: upt_conv_Cons upperhex_def ishex_def unhex_def del: upt_Suc)

lemma upperhex_hex: "n < 16 \<Longrightarrow> ishex (upperhex n) \<and> unhex (upperhex n) = n"
  using upperhex_hex_all by (simp add: list_all_iff)

lemma of_char_hex_digits:
  "(of_char c :: nat) div 16 < 16" "(of_char c :: nat) mod 16 < 16"
  "char_of ((of_char c :: nat) div 16 * 16 + of_char c mod 16) = c"
proof -
  have "(of_char c :: nat) < 16 * 16"
    using nat_of_char_less_256 [of c] by simp
  then show "(of_char c :: nat) div 16 < 16"
    by (simp only: less_mult_imp_div_less)
  show "(of_char c :: nat) mod 16 < 16"
    by simp
  show "char_of ((of_char c :: nat) div 16 * 16 + of_char c mod 16) = c"
    by simp
qed

lemma unescape_percent:
  assumes "ishex h" and "ishex l"
  shows "QueryUnescape (CHR ''%'' # h # l # t)
     = map_option ((#) (char_of (unhex h * 16 + unhex l))) (QueryUnescape t)"
  using assms by simp

lemma unescape_plain:
  assumes "c \<noteq> CHR ''%''" and "c \<noteq> CHR ''+''"
  shows "QueryUnescape (c # t) = map_option ((#) c) (QueryUnescape t)"
  using assms by simp

lemma unescape_escape_byte:
  "QueryUnescape (escape_byte c @ t) = map_option ((#) c) (QueryUnescape t)"
proof -
  consider "unreserved c" | "\<not> unreserved c" "c = CHR '' ''" | "\<not> unreserved c" "c \<noteq> CHR '' ''"
    by blast
  then show ?thesis
  proof cases
    case 1
    moreover have "\<not> unreserved (CHR ''%'')" "\<not> unreserved (CHR ''+'')"
      by (simp_all add: unreserved_def)
    ultimately have "c \<noteq> CHR ''%''" "c \<noteq> CHR ''+''"
      by blast+
    from unescape_plain [OF this] 1 show ?thesis
      by (simp only: escape_byte_def if_True append.simps)
  next
    case 2
    have "QueryUnescape (CHR ''+'' # t) = map_option ((#) (CHR '' '')) (QueryUnescape t)"
      by simp
    with 2 show ?thesis
      by (simp add: escape_byte_def)
  next
    case 3
    let ?h = "upperhex (of_char c div 16)" and ?l = "upperhex (of_char c mod 16)"
    note h = upperhex_hex [OF of_char_hex_digits(1) [of c]]
      and l = upperhex_hex [OF of_char_hex_digits(2) [of c]]
    have "QueryUnescape (CHR ''%'' # ?h # ?l # t)
        = map_option ((#) (char_of (unhex ?h * 16 + unhex ?l))) (QueryUnescape t)"
      using h l by (intro unescape_percent) blast+
    also have "char_of (unhex ?h * 16 + unhex ?l) = c"
      using h l of_char_hex_digits(3) [of c] by simp
    finally show ?thesis
      using 3 by (simp only: escape_byte_def if_False append.simps)
  qed
qed

lemma QueryUnescape_QueryEscape: "QueryUnescape (QueryEscape s) = Some s"
  by (induction s) (simp_all add: QueryEscape_def unescape_escape_byte)

subsection \<open>Clean: the buffer and the shape of the result\<close>

lemma name_elem_dotdot: "\<not> name_elem ''..''" "\<not> name_elem []" "\<not> name_elem ''.''"
  by (simp_all add: name_elem_def)

lemma clean_elem_name: "name_elem e \<Longrightarrow> clean_elem rooted out e = e # out"
  by (simp add: clean_elem_def name_elem_def)

lemma clean_elem_skip: "clean_elem rooted out [] = out" "clean_elem rooted out ''.'' = out"
  by (simp_all add: clean_elem_def)

lemma foldl_clean_names:
  "\<forall>e \<in> set ns. name_elem e \<Longrightarrow> foldl (clean_elem rooted) out ns = rev ns @ out"
  by (induction ns arbitrary: out) (simp_all add: clean_elem_name)

lemma foldl_clean_dots:
  "foldl (clean_elem False) (replicate j ''..'') (replicate k ''..'') = replicate (k + j) ''..''"
proof (induction k arbitrary: j)
  case 0
  show ?case by simp
next
  case (Suc k)
  have "clean_elem False (replicate j ''..'') ''..'' = replicate (Suc j) ''..''"
    by (cases j) (simp_all add: clean_elem_def)
  with Suc [of "Suc j"] show ?case by simp
qed

lemma clean_elems_normal:
  assumes "\<forall>e \<in> set ns. name_elem e" and "rooted \<longrightarrow> k = 0"
  shows "clean_elems rooted (replicate k ''..'' @ ns) = replicate k ''..'' @ ns"
proof (cases rooted)
  case True
  with assms show ?thesis
    by (simp add: clean_elems_def foldl_clean_names)
next
  case False
  have "foldl (clean_elem False) [] (replicate k ''..'') = replicate k ''..''"
    using foldl_clean_dots [of 0 k] by simp
  with False assms show ?thesis
    by (simp add: clean_elems_def foldl_clean_names)
qed

text \<open>The buffer, last element first: names, then the leading \<^verbatim>\<open>..\<close> elements.\<close>

lemma clean_elem_shape:
  assumes "out = ns @ replicate k ''..''" and "\<forall>n \<in> set ns. name_elem n" and "rooted \<longrightarrow> k = 0"
    and "CHR ''/'' \<notin> set e"
  shows "\<exists>ns' k'. clean_elem rooted out e = ns' @ replicate k' ''..''
           \<and> (\<forall>n \<in> set ns'. name_elem n) \<and> (rooted \<longrightarrow> k' = 0)"
proof -
  consider "e = [] \<or> e = ''.''" | "e = ''..''" | "name_elem e"
    using assms(4) by (auto simp: name_elem_def)
  then show ?thesis
  proof cases
    case 1
    with assms show ?thesis
      by (auto simp: clean_elem_def)
  next
    case 2
    show ?thesis
    proof (cases ns)
      case Nil
      show ?thesis
      proof (cases rooted)
        case True
        with Nil assms 2 have "clean_elem rooted out e = []"
          by (simp add: clean_elem_def)
        then show ?thesis
          by (intro exI [of _ "[]"] exI [of _ 0]) simp
      next
        case False
        with Nil assms 2 have "clean_elem rooted out e = replicate (Suc k) ''..''"
          by (cases k) (simp_all add: clean_elem_def)
        with False show ?thesis
          by (intro exI [of _ "[]"] exI [of _ "Suc k"]) simp
      qed
    next
      case (Cons n ns')
      with assms have "n \<noteq> ''..''"
        by (auto simp: name_elem_def)
      with Cons assms 2 have "clean_elem rooted out e = ns' @ replicate k ''..''"
        by (simp add: clean_elem_def)
      with Cons assms show ?thesis by auto
    qed
  next
    case 3
    then have "clean_elem rooted out e = (e # ns) @ replicate k ''..''"
      using assms(1) by (simp add: clean_elem_name)
    with 3 assms show ?thesis
      by (metis set_ConsD)
  qed
qed

lemma foldl_clean_shape:
  assumes "out = ns @ replicate k ''..''" and "\<forall>n \<in> set ns. name_elem n" and "rooted \<longrightarrow> k = 0"
    and "\<forall>e \<in> set es. CHR ''/'' \<notin> set e"
  shows "\<exists>ns' k'. foldl (clean_elem rooted) out es = ns' @ replicate k' ''..''
           \<and> (\<forall>n \<in> set ns'. name_elem n) \<and> (rooted \<longrightarrow> k' = 0)"
  using assms
proof (induction es arbitrary: out ns k)
  case Nil
  then show ?case by auto
next
  case (Cons e es)
  have "CHR ''/'' \<notin> set e"
    using Cons.prems(4) by simp
  from clean_elem_shape [OF Cons.prems(1,2,3) this]
  obtain ns' k' where "clean_elem rooted out e = ns' @ replicate k' ''..''"
    "\<forall>n \<in> set ns'. name_elem n" "rooted \<longrightarrow> k' = 0"
    by blast
  from Cons.IH [OF this] Cons.prems(4) show ?case
    by simp
qed

lemma clean_elems_shape:
  assumes "\<forall>e \<in> set es. CHR ''/'' \<notin> set e"
  shows "\<exists>k ns. clean_elems rooted es = replicate k ''..'' @ ns
           \<and> (\<forall>n \<in> set ns. name_elem n) \<and> (rooted \<longrightarrow> k = 0)"
proof -
  from foldl_clean_shape [of "[]" "[]" 0 rooted es] assms
  obtain ns' k' where "foldl (clean_elem rooted) [] es = ns' @ replicate k' ''..''"
    "\<forall>n \<in> set ns'. name_elem n" "rooted \<longrightarrow> k' = 0"
    by auto
  then have "clean_elems rooted es = replicate k' ''..'' @ rev ns'"
    "\<forall>n \<in> set (rev ns'). name_elem n"
    by (simp_all add: clean_elems_def)
  with \<open>rooted \<longrightarrow> k' = 0\<close> show ?thesis
    by blast
qed

text \<open>The result of Clean, in terms of its elements.\<close>

lemma Clean_shape:
  "\<exists>k ns. (\<forall>n \<in> set ns. name_elem n) \<and> (IsAbs p \<longrightarrow> k = 0)
     \<and> Clean p =
         (if IsAbs p then ''/'' @ strings_Join ns ''/''
          else if k = 0 \<and> ns = [] then ''.''
          else strings_Join (replicate k ''..'' @ ns) ''/'')"
proof (cases "p = []")
  case True
  then have "Clean p = ''.''" "\<not> IsAbs p"
    by (simp_all add: Clean_def IsAbs_def HasPrefix_def)
  then show ?thesis
    by (intro exI [of _ 0] exI [of _ "[]"]) simp
next
  case False
  have "\<forall>e \<in> set (Split p (CHR ''/'')). CHR ''/'' \<notin> set e"
    using Split_sep_free by blast
  from clean_elems_shape [OF this, of "IsAbs p"]
  obtain k ns where s: "clean_elems (IsAbs p) (Split p (CHR ''/'')) = replicate k ''..'' @ ns"
    "\<forall>n \<in> set ns. name_elem n" "IsAbs p \<longrightarrow> k = 0"
    by blast
  with False have "Clean p =
         (if IsAbs p then ''/'' @ strings_Join ns ''/''
          else if k = 0 \<and> ns = [] then ''.''
          else strings_Join (replicate k ''..'' @ ns) ''/'')"
    by (auto simp: Clean_def Let_def)
  with s show ?thesis
    by blast
qed

subsection \<open>Clean is idempotent\<close>

lemma IsAbs_Cons: "IsAbs (c # s) \<longleftrightarrow> c = CHR ''/''"
  by (simp add: IsAbs_def HasPrefix_def)

lemma IsAbs_Nil: "\<not> IsAbs []"
  by (simp add: IsAbs_def HasPrefix_def)

lemma not_IsAbs_strings_Join:
  assumes "e \<noteq> []" and "CHR ''/'' \<notin> set e"
  shows "\<not> IsAbs (strings_Join (e # es) sep)" and "strings_Join (e # es) sep \<noteq> []"
proof -
  from assms have "hd e \<noteq> CHR ''/''"
    by (cases e) auto
  then show "\<not> IsAbs (strings_Join (e # es) sep)"
    using strings_Join_hd [OF assms(1), of es sep] by (metis IsAbs_Cons)
  show "strings_Join (e # es) sep \<noteq> []"
    using strings_Join_hd [OF assms(1), of es sep] by (metis list.distinct(1))
qed

text \<open>Cleaning a rooted path in normal form gives it back.\<close>

lemma Clean_rooted_normal:
  assumes "\<forall>n \<in> set ns. name_elem n"
  shows "Clean (''/'' @ strings_Join ns ''/'') = ''/'' @ strings_Join ns ''/''"
proof -
  have sp: "clean_elems True (Split (''/'' @ strings_Join ns ''/'') (CHR ''/'')) = ns"
  proof (cases "ns = []")
    case True
    then show ?thesis
      by (simp add: clean_elems_def clean_elem_skip)
  next
    case False
    with assms have "Split (strings_Join ns ''/'') (CHR ''/'') = ns"
      by (intro Split_strings_Join) (auto simp: name_elem_def)
    then have "clean_elems True (Split (''/'' @ strings_Join ns ''/'') (CHR ''/''))
        = clean_elems True ns"
      by (simp add: clean_elems_def clean_elem_skip)
    also have "\<dots> = ns"
      using clean_elems_normal [OF assms, of True 0] by simp
    finally show ?thesis .
  qed
  have "IsAbs (''/'' @ strings_Join ns ''/'')"
    by (simp add: IsAbs_Cons)
  with sp show ?thesis
    by (simp add: Clean_def Let_def)
qed

text \<open>Cleaning an unrooted path in normal form gives it back.\<close>

lemma Clean_normal_elems:
  assumes "es \<noteq> []" and "\<forall>s \<in> set es. s \<noteq> [] \<and> CHR ''/'' \<notin> set s"
    and "clean_elems False es = es"
  shows "Clean (strings_Join es ''/'') = strings_Join es ''/''"
    and "\<not> IsAbs (strings_Join es ''/'')"
proof -
  from assms(1) obtain e es' where es: "es = e # es'"
    by (cases es) auto
  with assms(2) have e: "e \<noteq> []" "CHR ''/'' \<notin> set e"
    by simp_all
  show na: "\<not> IsAbs (strings_Join es ''/'')"
    unfolding es by (rule not_IsAbs_strings_Join [OF e])
  have ne: "strings_Join es ''/'' \<noteq> []"
    unfolding es by (rule not_IsAbs_strings_Join [OF e])
  have sp: "Split (strings_Join es ''/'') (CHR ''/'') = es"
    using assms(1,2) by (intro Split_strings_Join) auto
  show "Clean (strings_Join es ''/'') = strings_Join es ''/''"
    using na ne assms(1,3) by (simp add: Clean_def Let_def sp)
qed

lemma Clean_unrooted_normal:
  assumes "\<forall>n \<in> set ns. name_elem n" and "replicate k ''..'' @ ns \<noteq> []"
  shows "Clean (strings_Join (replicate k ''..'' @ ns) ''/'') = strings_Join (replicate k ''..'' @ ns) ''/''"
    and "\<not> IsAbs (strings_Join (replicate k ''..'' @ ns) ''/'')"
proof -
  have "\<forall>s \<in> set ns. s \<noteq> [] \<and> CHR ''/'' \<notin> set s"
    using assms(1) by (simp add: name_elem_def)
  moreover have "\<forall>s \<in> set (replicate k ''..''). s \<noteq> [] \<and> CHR ''/'' \<notin> set s"
    by simp
  ultimately have sepfree:
    "\<forall>s \<in> set (replicate k ''..'' @ ns). s \<noteq> [] \<and> CHR ''/'' \<notin> set s"
    unfolding set_append by blast
  have norm: "clean_elems False (replicate k ''..'' @ ns) = replicate k ''..'' @ ns"
    by (rule clean_elems_normal [OF assms(1)]) simp
  show "Clean (strings_Join (replicate k ''..'' @ ns) ''/'') = strings_Join (replicate k ''..'' @ ns) ''/''"
    by (rule Clean_normal_elems(1) [OF assms(2) sepfree norm])
  show "\<not> IsAbs (strings_Join (replicate k ''..'' @ ns) ''/'')"
    by (rule Clean_normal_elems(2) [OF assms(2) sepfree norm])
qed

lemma Clean_dot: "Clean ''.'' = ''.''"
  by code_simp

lemma Clean_idem: "Clean (Clean p) = Clean p"
proof -
  from Clean_shape [of p]
  obtain k ns where ns: "\<forall>n \<in> set ns. name_elem n" and k: "IsAbs p \<longrightarrow> k = 0"
    and c: "Clean p =
         (if IsAbs p then ''/'' @ strings_Join ns ''/''
          else if k = 0 \<and> ns = [] then ''.''
          else strings_Join (replicate k ''..'' @ ns) ''/'')"
    by blast
  show ?thesis
  proof (cases "IsAbs p")
    case True
    with c Clean_rooted_normal [OF ns] show ?thesis
      by simp
  next
    case na: False
    show ?thesis
    proof (cases "k = 0 \<and> ns = []")
      case True
      with c na show ?thesis
        by (simp add: Clean_dot)
    next
      case False
      then have "replicate k ''..'' @ ns \<noteq> []"
        by auto
      from Clean_unrooted_normal(1) [OF ns this] c na False show ?thesis
        by simp
    qed
  qed
qed

lemma IsAbs_Clean: "IsAbs (Clean p) \<longleftrightarrow> IsAbs p"
proof -
  from Clean_shape [of p]
  obtain k ns where ns: "\<forall>n \<in> set ns. name_elem n" and k: "IsAbs p \<longrightarrow> k = 0"
    and c: "Clean p =
         (if IsAbs p then ''/'' @ strings_Join ns ''/''
          else if k = 0 \<and> ns = [] then ''.''
          else strings_Join (replicate k ''..'' @ ns) ''/'')"
    by blast
  show ?thesis
  proof (cases "IsAbs p")
    case True
    with c show ?thesis
      by (simp add: IsAbs_Cons)
  next
    case na: False
    show ?thesis
    proof (cases "k = 0 \<and> ns = []")
      case True
      with c na show ?thesis
        by (simp add: IsAbs_Cons)
    next
      case False
      then have "replicate k ''..'' @ ns \<noteq> []"
        by auto
      from Clean_unrooted_normal(2) [OF ns this] c na False show ?thesis
        by simp
    qed
  qed
qed

text \<open>A cleaned rooted path has no \<^verbatim>\<open>..\<close> element.\<close>

lemma Clean_rooted_no_dotdot:
  assumes "IsAbs p"
  shows "''..'' \<notin> set (Split (Clean p) (CHR ''/''))"
proof -
  from Clean_shape [of p] assms
  obtain ns where ns: "\<forall>n \<in> set ns. name_elem n"
    and c: "Clean p = ''/'' @ strings_Join ns ''/''"
    by auto
  have "set (Split (strings_Join ns ''/'') (CHR ''/'')) \<subseteq> insert [] (set ns)"
  proof (cases "ns = []")
    case True
    then show ?thesis by simp
  next
    case False
    with ns have "Split (strings_Join ns ''/'') (CHR ''/'') = ns"
      by (intro Split_strings_Join) (auto simp: name_elem_def)
    then show ?thesis by auto
  qed
  with ns show ?thesis
    unfolding c by (auto simp: name_elem_def)
qed

lemma Abs_IsAbs: "IsAbs p \<Longrightarrow> Abs wd p = Some (Clean p)"
  by (simp add: Abs_def)


subsection \<open>The containment check and the resolved path\<close>

lemma prefix_snoc_same: "prefix (y @ [c]) (x @ [c]) \<Longrightarrow> x = y \<or> prefix (y @ [c]) x"
  by (auto simp: prefix_snoc)

lemma isWithinD:
  assumes "isWithin wd p root"
  shows "\<exists>pAbs rootAbs. Abs wd p = Some pAbs \<and> Abs wd root = Some rootAbs
           \<and> (Clean pAbs = Clean rootAbs \<or> prefix (Clean rootAbs @ ''/'') (Clean pAbs))"
proof -
  from assms obtain pAbs rootAbs where a: "Abs wd p = Some pAbs" "Abs wd root = Some rootAbs"
    and h: "HasPrefix (Clean pAbs @ ''/'') (Clean rootAbs @ ''/'') \<or> Clean pAbs = Clean rootAbs"
    by (auto simp: isWithin_def Let_def split: option.splits)
  from h have "Clean pAbs = Clean rootAbs \<or> prefix (Clean rootAbs @ ''/'') (Clean pAbs)"
    unfolding HasPrefix_iff using prefix_snoc_same [of "Clean rootAbs" "CHR ''/''" "Clean pAbs"]
    by blast
  with a show ?thesis
    by blast
qed

lemma resolveD:
  assumes "resolve wd rootDir p = Some (rel, a)"
  shows "rel = (if Clean (TrimPrefix p ''/'') = ''.'' then [] else Clean (TrimPrefix p ''/''))"
    and "a = Join [rootDir, rel]"
    and "isWithin wd a rootDir"
  using assms by (auto simp: resolve_def Let_def split: if_splits)





subsection \<open>The redirect of a download leads to the listing of the same directory\<close>

lemma main_rootDir_nonempty: "main_rootDir env \<noteq> []"
  by (simp add: main_rootDir_def getenv_def Let_def)

lemma Join_cong_elems:
  assumes "rootDir \<noteq> []"
    and "\<And>out. foldl (clean_elem (IsAbs rootDir)) out (Split y (CHR ''/''))
                = foldl (clean_elem (IsAbs rootDir)) out (Split y' (CHR ''/''))"
  shows "Join [rootDir, y] = Join [rootDir, y']"
proof -
  let ?b = "IsAbs rootDir"
  let ?p = "rootDir @ CHR ''/'' # y" and ?p' = "rootDir @ CHR ''/'' # y'"
  have abs: "IsAbs ?p = ?b" "IsAbs ?p' = ?b"
    using assms(1) by (cases rootDir; simp add: IsAbs_Cons)+
  have ce: "clean_elems ?b (Split ?p (CHR ''/'')) = clean_elems ?b (Split ?p' (CHR ''/''))"
    by (simp add: clean_elems_def Split_append_sep assms(2))
  have "Clean ?p = Clean ?p'"
    unfolding Clean_def Let_def abs ce by simp
  with assms(1) show ?thesis
    by simp
qed

lemma TrimPrefix_slash: "TrimPrefix (CHR ''/'' # s) ''/'' = s"
  by (simp add: TrimPrefix_def HasPrefix_def)

lemma TrimPrefix_unrooted: "\<not> IsAbs p \<Longrightarrow> TrimPrefix p ''/'' = p"
  by (simp add: TrimPrefix_def IsAbs_def)

lemma redirect_target_same_directory:
  assumes "rootDir \<noteq> []" and "rel = Clean x"
  shows "Join [rootDir, (let r = Clean (TrimPrefix rel ''/'') in if r = ''.'' then [] else r)]
     = Join [rootDir, rel]"
proof -
  let ?rel' = "let r = Clean (TrimPrefix rel ''/'') in if r = ''.'' then [] else r"
  from Clean_shape [of x]
  obtain k ns where ns: "\<forall>n \<in> set ns. name_elem n" and k: "IsAbs x \<longrightarrow> k = 0"
    and c: "Clean x =
         (if IsAbs x then ''/'' @ strings_Join ns ''/''
          else if k = 0 \<and> ns = [] then ''.''
          else strings_Join (replicate k ''..'' @ ns) ''/'')"
    by blast
  show ?thesis
  proof (cases "IsAbs x")
    case True
    with c assms(2) have rel: "rel = CHR ''/'' # strings_Join ns ''/''"
      by simp
    show ?thesis
    proof (cases "ns = []")
      case True
      with rel have "?rel' = []" "rel = ''/''"
        by (simp_all add: TrimPrefix_slash Clean_def)
      then show ?thesis
        using assms(1) by (intro Join_cong_elems) (simp_all add: clean_elem_skip)
    next
      case False
      have "Clean (strings_Join ns ''/'') = strings_Join ns ''/''"
        using Clean_unrooted_normal(1) [OF ns, of 0] False by simp
      moreover have "strings_Join ns ''/'' \<noteq> ''.''"
        using False ns by (intro strings_Join_not_dot) (auto simp: name_elem_def)
      ultimately have rel': "?rel' = strings_Join ns ''/''"
        unfolding rel by (simp add: TrimPrefix_slash)
      have "Split (strings_Join ns ''/'') (CHR ''/'') = ns"
        using False ns by (intro Split_strings_Join) (auto simp: name_elem_def)
      then have "foldl (clean_elem (IsAbs rootDir)) out (Split ?rel' (CHR ''/''))
          = foldl (clean_elem (IsAbs rootDir)) out (Split rel (CHR ''/''))" for out
        unfolding rel' by (simp add: rel clean_elem_skip)
      then show ?thesis
        by (rule Join_cong_elems [OF assms(1)])
    qed
  next
    case na: False
    show ?thesis
    proof (cases "k = 0 \<and> ns = []")
      case True
      with c na assms(2) have "rel = ''.''"
        by simp
      then have "?rel' = []" "rel = ''.''"
        by (simp_all add: TrimPrefix_def HasPrefix_def Clean_dot)
      then show ?thesis
        using assms(1) by (intro Join_cong_elems) (simp_all add: clean_elem_skip)
    next
      case False
      then have ne: "replicate k ''..'' @ ns \<noteq> []"
        by auto
      from c na False assms(2) have rel: "rel = strings_Join (replicate k ''..'' @ ns) ''/''"
        by simp
      have "\<forall>s \<in> set ns. s \<noteq> ''.'' \<and> CHR ''/'' \<notin> set s"
        using ns by (simp add: name_elem_def)
      moreover have "\<forall>s \<in> set (replicate k ''..''). s \<noteq> ''.'' \<and> CHR ''/'' \<notin> set s"
        by simp
      ultimately have "\<forall>s \<in> set (replicate k ''..'' @ ns). s \<noteq> ''.'' \<and> CHR ''/'' \<notin> set s"
        unfolding set_append by blast
      with ne have "rel \<noteq> ''.''"
        unfolding rel by (intro strings_Join_not_dot)
      moreover have "\<not> IsAbs rel" "Clean rel = rel"
        unfolding rel using Clean_unrooted_normal [OF ns ne] by blast+
      ultimately have "?rel' = rel"
        by (simp add: TrimPrefix_unrooted)
      then show ?thesis
        by simp
    qed
  qed
qed


section \<open>The claims\<close>

text \<open>
  C1. Whenever the path resolution of \<^verbatim>\<open>listHandler\<close> accepts a path, for any root
  directory, any working directory and any user path: the absolute forms of the resolved
  path and of the root exist, and the canonical form of the resolved path equals the
  canonical root or begins with the canonical root followed by the separator. For an
  absolute root (the spec's precondition) the resolved path is itself absolute and
  canonical, equals the cleaned root or begins with it followed by the separator, has no
  \<^verbatim>\<open>..\<close> element, and its elements begin with the elements of the cleaned root.
\<close>

theorem resolve_stays_within_root:
  assumes "resolve wd rootDir p = Some (rel, a)"
  shows "(\<exists>pAbs rootAbs. Abs wd a = Some pAbs \<and> Abs wd rootDir = Some rootAbs
            \<and> (Clean pAbs = Clean rootAbs \<or> prefix (Clean rootAbs @ ''/'') (Clean pAbs)))
     \<and> (IsAbs rootDir \<longrightarrow>
           IsAbs a \<and> Clean a = a \<and> Abs wd a = Some a
           \<and> (a = Clean rootDir \<or> prefix (Clean rootDir @ ''/'') a)
           \<and> ''..'' \<notin> set (Split a (CHR ''/''))
           \<and> prefix (Split (Clean rootDir) (CHR ''/'')) (Split a (CHR ''/'')))"
proof (intro conjI impI)
  note r = resolveD [OF assms]
  show gen: "\<exists>pAbs rootAbs. Abs wd a = Some pAbs \<and> Abs wd rootDir = Some rootAbs
            \<and> (Clean pAbs = Clean rootAbs \<or> prefix (Clean rootAbs @ ''/'') (Clean pAbs))"
    by (rule isWithinD [OF r(3)])
  assume root: "IsAbs rootDir"
  then have "rootDir \<noteq> []"
    using IsAbs_Nil by blast
  then have a: "a = Clean (rootDir @ ''/'' @ rel)"
    using r(2) by simp
  from root have "IsAbs (rootDir @ ''/'' @ rel)"
    by (cases rootDir) (simp_all add: IsAbs_Cons IsAbs_Nil)
  then show abs_a: "IsAbs a"
    unfolding a by (simp only: IsAbs_Clean)
  show clean_a: "Clean a = a"
    unfolding a by (rule Clean_idem)
  from abs_a clean_a show Abs_a: "Abs wd a = Some a"
    by (simp add: Abs_IsAbs)
  from gen Abs_a Abs_IsAbs [OF root, of wd]
  show within: "a = Clean rootDir \<or> prefix (Clean rootDir @ ''/'') a"
    by (auto simp: clean_a Clean_idem)
  from \<open>IsAbs (rootDir @ ''/'' @ rel)\<close> show "''..'' \<notin> set (Split a (CHR ''/''))"
    unfolding a by (rule Clean_rooted_no_dotdot)
  from within show "prefix (Split (Clean rootDir) (CHR ''/'')) (Split a (CHR ''/''))"
  proof
    assume "a = Clean rootDir"
    then show ?thesis by simp
  next
    assume "prefix (Clean rootDir @ ''/'') a"
    then obtain rest where "a = Clean rootDir @ CHR ''/'' # rest"
      by (auto simp: prefix_def)
    then show ?thesis
      by (simp add: Split_append_sep)
  qed
qed

theorem resolve_stays_within_root_witness:
  "resolve (Some ''/app'') ''/data'' ''a/../b'' = Some (''b'', ''/data/b'')
   \<and> IsAbs ''/data''
   \<and> Clean ''/data'' = ''/data''
   \<and> prefix (Clean ''/data'' @ ''/'') ''/data/b''
   \<and> resolve (Some ''/app'') ''/data'' [] = Some ([], ''/data'')
   \<and> resolve (Some ''/app'') ''/data'' ''../secret'' = None
   \<and> resolve (Some ''/app'') ''/data'' ''a/../../b'' = None
   \<and> resolve (Some ''/app'') ''/data'' ''../../etc/passwd'' = None"
proof -
  have h: "resolve (Some ''/app'') ''/data'' ''a/../b'' = Some (''b'', ''/data/b'')"
    by code_simp
  have root: "IsAbs ''/data''"
    by code_simp
  have c: "Clean ''/data'' = ''/data''"
    by code_simp
  have "''/data/b'' \<noteq> Clean ''/data''"
    unfolding c by simp
  with resolve_stays_within_root [OF h] root
  have "prefix (Clean ''/data'' @ ''/'') ''/data/b''"
    by blast
  moreover have "resolve (Some ''/app'') ''/data'' [] = Some ([], ''/data'')"
    "resolve (Some ''/app'') ''/data'' ''../secret'' = None"
    "resolve (Some ''/app'') ''/data'' ''a/../../b'' = None"
    "resolve (Some ''/app'') ''/data'' ''../../etc/passwd'' = None"
    by code_simp+
  ultimately show ?thesis
    using h root c by (intro conjI)
qed

text \<open>
  C2, evaluated on the code. \<^verbatim>\<open>/data/docs\<close> holds the directory \<^verbatim>\<open>dirA\<close> (size 100)
  and the files \<^verbatim>\<open>fileB\<close> (size 1) and \<^verbatim>\<open>fileZ\<close> (size 50). Sorted by size in
  descending order the handler lists \<^verbatim>\<open>fileZ\<close>, \<^verbatim>\<open>fileB\<close>, \<^verbatim>\<open>dirA\<close>: the negation
  of \<^verbatim>\<open>less\<close> reverses the directory-first comparison too, so the directory comes
  last. In ascending order the directory comes first.
\<close>

theorem size_desc_lists_directory_last:
  "listHandler lower ex_fs ''/data'' [(''path'', ''docs''), (''sort'', ''size''), (''order'', ''desc'')]
     = ExecuteTemplate ''index.html''
         \<lparr>Rows =
            [\<lparr>fileRow.Name = ''fileZ'', RelPath = ''docs/fileZ'', IsDir = False,
              SizeBytes = 50, ModTime = 40\<rparr>,
             \<lparr>fileRow.Name = ''fileB'', RelPath = ''docs/fileB'', IsDir = False,
              SizeBytes = 1, ModTime = 60\<rparr>,
             \<lparr>fileRow.Name = ''dirA'', RelPath = ''docs/dirA'', IsDir = True,
              SizeBytes = 100, ModTime = 50\<rparr>],
          Path = ''docs'', Q = [], Sort = ''size'', Order = ''desc'',
          Breadcrumbs = [\<lparr>crumb.Name = ''docs'', URL = ''/?path=docs''\<rparr>]\<rparr>
   \<and> listHandler lower ex_fs ''/data'' [(''path'', ''docs''), (''sort'', ''size''), (''order'', ''asc'')]
     = ExecuteTemplate ''index.html''
         \<lparr>Rows =
            [\<lparr>fileRow.Name = ''dirA'', RelPath = ''docs/dirA'', IsDir = True,
              SizeBytes = 100, ModTime = 50\<rparr>,
             \<lparr>fileRow.Name = ''fileB'', RelPath = ''docs/fileB'', IsDir = False,
              SizeBytes = 1, ModTime = 60\<rparr>,
             \<lparr>fileRow.Name = ''fileZ'', RelPath = ''docs/fileZ'', IsDir = False,
              SizeBytes = 50, ModTime = 40\<rparr>],
          Path = ''docs'', Q = [], Sort = ''size'', Order = ''asc'',
          Breadcrumbs = [\<lparr>crumb.Name = ''docs'', URL = ''/?path=docs''\<rparr>]\<rparr>"
  by code_simp

text \<open>
  C3, as stated, fails: the listing has no not-found outcome. A path that does not exist
  is answered with the status 500, as a directory that cannot be read is.
\<close>

theorem listing_not_found_counterexample:
  "\<forall>lower.
     ReadDir ex_fs ''/data/nope'' = Inl (PathError ''open'' ''/data/nope'' ENOENT)
   \<and> listHandler lower ex_fs ''/data'' [(''path'', ''nope'')]
       = Error ''open /data/nope: no such file or directory'' StatusInternalServerError
   \<and> listHandler lower ex_fs ''/data'' [(''path'', ''nope'')] \<noteq> NotFound
   \<and> listHandler lower ex_fs ''/data'' [(''path'', ''locked'')]
       = Error ''open /data/locked: permission denied'' StatusInternalServerError"
  (is "\<forall>lower. ?P lower")
proof
  fix lower :: "nat \<Rightarrow> nat"
  have res: "resolve (Getwd ex_fs) ''/data'' (Get [(''path'', ''nope'')] ''path'')
      = Some (''nope'', ''/data/nope'')"
    "resolve (Getwd ex_fs) ''/data'' (Get [(''path'', ''locked'')] ''path'')
      = Some (''locked'', ''/data/locked'')"
    by code_simp+
  have rd: "ReadDir ex_fs ''/data/nope'' = Inl (PathError ''open'' ''/data/nope'' ENOENT)"
    "ReadDir ex_fs ''/data/locked'' = Inl (PathError ''open'' ''/data/locked'' EACCES)"
    by (simp_all add: ex_fs_def)
  show "?P lower"
    by (simp add: listHandler_read_error [OF res(1) rd(1)] listHandler_read_error [OF res(2) rd(2)]
        rd NotFound_def StatusInternalServerError_def StatusNotFound_def)
qed

text \<open>
  C3, amended. Directory listing has one failure outcome once the path is accepted:
  whenever reading the directory fails (the path does not exist, is not a directory,
  or cannot be read), the failure is surfaced as a server error, status 500, with the
  text of the error; the listing never answers not-found, and the causes differ only in
  that text.
\<close>

theorem listing_read_failure_is_server_error:
  "(resolve (Getwd fs) rootDir (Get r ''path'') = Some (rel, a) \<and> ReadDir fs a = Inl err
      \<longrightarrow> listHandler lower fs rootDir r = Error (Error_text err) StatusInternalServerError)
   \<and> listHandler lower fs rootDir r \<noteq> Error msg StatusNotFound"
  by (auto simp: listHandler_resolve StatusNotFound_def StatusInternalServerError_def
      StatusBadRequest_def split: option.splits sum.splits)

theorem listing_read_failure_is_server_error_witness:
  "\<forall>lower.
     resolve (Getwd ex_fs) ''/data'' (Get [(''path'', ''Readme.txt'')] ''path'')
       = Some (''Readme.txt'', ''/data/Readme.txt'')
   \<and> ReadDir ex_fs ''/data/Readme.txt''
       = Inl (PathError ''readdirent'' ''/data/Readme.txt'' ENOTDIR)
   \<and> listHandler lower ex_fs ''/data'' [(''path'', ''Readme.txt'')]
       = Error ''readdirent /data/Readme.txt: not a directory'' StatusInternalServerError"
  (is "\<forall>lower. ?P lower")
proof
  fix lower :: "nat \<Rightarrow> nat"
  have res: "resolve (Getwd ex_fs) ''/data'' (Get [(''path'', ''Readme.txt'')] ''path'')
     = Some (''Readme.txt'', ''/data/Readme.txt'')"
    by code_simp
  have rd: "ReadDir ex_fs ''/data/Readme.txt''
       = Inl (PathError ''readdirent'' ''/data/Readme.txt'' ENOTDIR)"
    by (simp add: ex_fs_def)
  from listing_read_failure_is_server_error
         [where lower = lower and fs = ex_fs and rootDir = "''/data''"
            and r = "[(''path'', ''Readme.txt'')]" and rel = "''Readme.txt''"
            and a = "''/data/Readme.txt''"
            and err = "PathError ''readdirent'' ''/data/Readme.txt'' ENOTDIR"]
       res rd
  show "?P lower"
    by simp
qed




text \<open>
  C5. The empty relative path has no breadcrumbs. A relative path that joins \<open>n\<close>
  segments with slashes, none of them empty or \<^verbatim>\<open>.\<close>, has exactly \<open>n\<close> breadcrumbs in
  the order of the segments: their names are the segments, and the navigation path of the
  \<open>i\<close>-th (the \<^verbatim>\<open>path\<close> parameter of its link, which is \<^verbatim>\<open>/?path=\<close> and the
  query-escaped path) is the join of the first \<open>i\<close> segments. For \<^verbatim>\<open>a/b/c\<close> the names are
  \<^verbatim>\<open>a\<close>, \<^verbatim>\<open>b\<close>, \<^verbatim>\<open>c\<close> and the navigation paths are \<^verbatim>\<open>a\<close>, \<^verbatim>\<open>a/b\<close>, \<^verbatim>\<open>a/b/c\<close>.
\<close>

theorem crumbsFor_one_crumb_per_segment:
  assumes "\<forall>s \<in> set segs. s \<noteq> [] \<and> s \<noteq> ''.'' \<and> CHR ''/'' \<notin> set s"
  shows "crumbsFor [] = []
     \<and> length (crumbsFor (strings_Join segs ''/'')) = length segs
     \<and> map crumb.Name (crumbsFor (strings_Join segs ''/'')) = segs
     \<and> map (\<lambda>c. navigationPath (URL c)) (crumbsFor (strings_Join segs ''/'')) =
         map (\<lambda>i. Some (strings_Join (take (Suc i) segs) ''/'')) [0 ..< length segs]
     \<and> crumbsFor (strings_Join segs ''/'') =
         map (\<lambda>i. \<lparr>crumb.Name = segs ! i,
                    URL = ''/?path='' @ QueryEscape (strings_Join (take (Suc i) segs) ''/'')\<rparr>)
           [0 ..< length segs]
     \<and> crumbsFor ''a/b/c'' =
         [\<lparr>crumb.Name = ''a'', URL = ''/?path=a''\<rparr>,
          \<lparr>crumb.Name = ''b'', URL = ''/?path=a%2Fb''\<rparr>,
          \<lparr>crumb.Name = ''c'', URL = ''/?path=a%2Fb%2Fc''\<rparr>]
     \<and> map (\<lambda>c. navigationPath (URL c)) (crumbsFor ''a/b/c'')
         = [Some ''a'', Some ''a/b'', Some ''a/b/c'']"
proof -
  let ?f = "\<lambda>i. \<lparr>crumb.Name = segs ! i,
                    URL = ''/?path='' @ QueryEscape (strings_Join (take (Suc i) segs) ''/'')\<rparr>"
  have eq: "crumbsFor (strings_Join segs ''/'') = map ?f [0 ..< length segs]"
  proof (cases "segs = []")
    case True
    then show ?thesis by (simp add: crumbsFor_def)
  next
    case False
    with assms have "strings_Join segs ''/'' \<noteq> []"
      by (simp add: strings_Join_Nil_iff)
    moreover from False assms have "Split (strings_Join segs ''/'') (CHR ''/'') = segs"
      by (intro Split_strings_Join) auto
    moreover from assms have "crumbs_loop (strings_Join [] ''/'') segs =
       map (\<lambda>i. \<lparr>crumb.Name = segs ! i,
                  URL = ''/?'' @ Encode_path (strings_Join ([] @ take (Suc i) segs) ''/'')\<rparr>)
         [0 ..< length segs]"
      by (intro crumbs_loop_eq) auto
    ultimately show ?thesis
      by (simp add: crumbsFor_def ToSlash_def Encode_path_def)
  qed
  have len: "length (crumbsFor (strings_Join segs ''/'')) = length segs"
    unfolding eq by simp
  have names: "map crumb.Name (crumbsFor (strings_Join segs ''/'')) = segs"
    unfolding eq by (simp add: map_nth comp_def)
  have nav: "navigationPath (''/?path='' @ QueryEscape p) = Some p" for p
    by (simp add: navigationPath_def HasPrefix_def QueryUnescape_QueryEscape)
  have paths: "map (\<lambda>c. navigationPath (URL c)) (crumbsFor (strings_Join segs ''/'')) =
         map (\<lambda>i. Some (strings_Join (take (Suc i) segs) ''/'')) [0 ..< length segs]"
    unfolding eq by (simp only: map_map comp_def crumb.select_convs nav)
  have abc: "crumbsFor ''a/b/c'' =
         [\<lparr>crumb.Name = ''a'', URL = ''/?path=a''\<rparr>,
          \<lparr>crumb.Name = ''b'', URL = ''/?path=a%2Fb''\<rparr>,
          \<lparr>crumb.Name = ''c'', URL = ''/?path=a%2Fb%2Fc''\<rparr>]"
    by code_simp
  have abc_paths: "map (\<lambda>c. navigationPath (URL c)) (crumbsFor ''a/b/c'')
         = [Some ''a'', Some ''a/b'', Some ''a/b/c'']"
    by code_simp
  have root: "crumbsFor [] = []"
    by (simp add: crumbsFor_def)
  from root len names paths eq abc abc_paths show ?thesis
    by (intro conjI)
qed

theorem crumbsFor_one_crumb_per_segment_witness:
  "crumbsFor (strings_Join [''docs'', ''my files'', ''..''] ''/'') =
     [\<lparr>crumb.Name = ''docs'', URL = ''/?path=docs''\<rparr>,
      \<lparr>crumb.Name = ''my files'', URL = ''/?path=docs%2Fmy+files''\<rparr>,
      \<lparr>crumb.Name = ''..'', URL = ''/?path=docs%2Fmy+files%2F..''\<rparr>]
   \<and> map (\<lambda>c. navigationPath (URL c)) (crumbsFor (strings_Join [''docs'', ''my files'', ''..''] ''/''))
       = [Some ''docs'', Some ''docs/my files'', Some ''docs/my files/..'']
   \<and> strings_Join [''docs'', ''my files'', ''..''] ''/'' = ''docs/my files/..''"
proof -
  have h: "\<forall>s \<in> set [''docs'', ''my files'', ''..'']. s \<noteq> [] \<and> s \<noteq> ''.'' \<and> CHR ''/'' \<notin> set s"
    by simp
  have e: "QueryEscape ''docs'' = ''docs''" "QueryEscape ''docs/my files'' = ''docs%2Fmy+files''"
    "QueryEscape ''docs/my files/..'' = ''docs%2Fmy+files%2F..''"
    by code_simp+
  note t = crumbsFor_one_crumb_per_segment [OF h]
  from t have "crumbsFor (strings_Join [''docs'', ''my files'', ''..''] ''/'') =
         map (\<lambda>i. \<lparr>crumb.Name = [''docs'', ''my files'', ''..''] ! i,
                    URL = ''/?path='' @ QueryEscape
                      (strings_Join (take (Suc i) [''docs'', ''my files'', ''..'']) ''/'')\<rparr>)
           [0 ..< length [''docs'', ''my files'', ''..'']]"
    by blast
  with e have crumbs: "crumbsFor (strings_Join [''docs'', ''my files'', ''..''] ''/'') =
     [\<lparr>crumb.Name = ''docs'', URL = ''/?path=docs''\<rparr>,
      \<lparr>crumb.Name = ''my files'', URL = ''/?path=docs%2Fmy+files''\<rparr>,
      \<lparr>crumb.Name = ''..'', URL = ''/?path=docs%2Fmy+files%2F..''\<rparr>]"
    by (simp add: upt_conv_Cons del: upt_Suc)
  from t have "map (\<lambda>c. navigationPath (URL c))
        (crumbsFor (strings_Join [''docs'', ''my files'', ''..''] ''/'')) =
      map (\<lambda>i. Some (strings_Join (take (Suc i) [''docs'', ''my files'', ''..'']) ''/''))
        [0 ..< length [''docs'', ''my files'', ''..'']]"
    by blast
  then have paths: "map (\<lambda>c. navigationPath (URL c))
        (crumbsFor (strings_Join [''docs'', ''my files'', ''..''] ''/''))
       = [Some ''docs'', Some ''docs/my files'', Some ''docs/my files/..'']"
    by (simp add: upt_conv_Cons del: upt_Suc)
  have "strings_Join [''docs'', ''my files'', ''..''] ''/'' = ''docs/my files/..''"
    by simp
  with crumbs paths show ?thesis
    by (intro conjI)
qed

text \<open>
  C6. A download request whose path passes the containment check and is an existing
  directory is answered with a redirect (status 303), not with the file's bytes and not
  with an error. The target is the listing link \<^verbatim>\<open>/?path=\<close> of the request's cleaned
  relative path: its navigation path is that relative path, and (the root directory not
  being the empty string, as \<^verbatim>\<open>main\<close> ensures) the listing of that path resolves to the
  very directory the download request named.
\<close>

theorem download_of_directory_redirects:
  assumes "rel = Clean (TrimPrefix (Get r ''path'') ''/'')"
    and "isWithin (Getwd fs) (Join [rootDir, rel]) rootDir"
    and "Stat fs (Join [rootDir, rel]) = Inr info"
    and "FileInfo.IsDir info"
  shows "downloadHandler fs rootDir r = Redirect (''/?path='' @ QueryEscape rel) StatusSeeOther
     \<and> navigationPath (''/?path='' @ QueryEscape rel) = Some rel
     \<and> (rootDir \<noteq> [] \<longrightarrow>
          (\<exists>rel'. resolve (Getwd fs) rootDir rel = Some (rel', Join [rootDir, rel])))"
proof (intro conjI impI)
  show "downloadHandler fs rootDir r = Redirect (''/?path='' @ QueryEscape rel) StatusSeeOther"
    using assms by (simp add: downloadHandler_def Encode_path_def)
  show "navigationPath (''/?path='' @ QueryEscape rel) = Some rel"
    by (simp add: navigationPath_def HasPrefix_def QueryUnescape_QueryEscape)
next
  assume root: "rootDir \<noteq> []"
  let ?rel' = "let r = Clean (TrimPrefix rel ''/'') in if r = ''.'' then [] else r"
  have same: "Join [rootDir, ?rel'] = Join [rootDir, rel]"
    by (rule redirect_target_same_directory [OF root assms(1)])
  have "resolve (Getwd fs) rootDir rel = Some (?rel', Join [rootDir, rel])"
    using assms(2) unfolding resolve_def Let_def same [unfolded Let_def] by simp
  then show "\<exists>rel'. resolve (Getwd fs) rootDir rel = Some (rel', Join [rootDir, rel])"
    by blast
qed

theorem download_of_directory_redirects_witness:
  "downloadHandler ex_fs ''/data'' [(''path'', ''//docs/'')] = Redirect ''/?path=%2Fdocs'' 303
   \<and> navigationPath ''/?path=%2Fdocs'' = Some ''/docs''
   \<and> resolve (Getwd ex_fs) ''/data'' ''/docs'' = Some (''docs'', ''/data/docs'')
   \<and> Stat ex_fs ''/data/docs'' = Inr ex_dir"
proof -
  have h1: "''/docs'' = Clean (TrimPrefix (Get [(''path'', ''//docs/'')] ''path'') ''/'')"
    by code_simp
  have j: "Join [''/data'', ''/docs''] = ''/data/docs''"
    by code_simp
  have h2: "isWithin (Getwd ex_fs) (Join [''/data'', ''/docs'']) ''/data''"
    by code_simp
  have st: "Stat ex_fs ''/data/docs'' = Inr ex_dir"
    by (simp add: ex_fs_def)
  then have h3: "Stat ex_fs (Join [''/data'', ''/docs'']) = Inr ex_dir"
    unfolding j .
  have h4: "FileInfo.IsDir ex_dir"
    by (simp add: ex_dir_def)
  have e: "QueryEscape ''/docs'' = ''%2Fdocs''"
    by code_simp
  have r: "resolve (Getwd ex_fs) ''/data'' ''/docs'' = Some (''docs'', ''/data/docs'')"
    by code_simp
  from download_of_directory_redirects [OF h1 h2 h3 h4] e st r show ?thesis
    by (simp add: StatusSeeOther_def)
qed

text \<open>
  C7. When the path is accepted and the directory is read, the handler produces the page
  (no error), whatever \<^verbatim>\<open>Info\<close> does for the single entries: the rows are, up to their
  order, the rows of exactly those entries whose \<^verbatim>\<open>Info\<close> succeeded and whose name
  matches the query. An entry whose \<^verbatim>\<open>Info\<close> failed has no row; with the empty query
  every other entry has one.
\<close>

theorem info_failure_omits_only_that_entry:
  assumes "resolve (Getwd fs) rootDir (Get r ''path'') = Some (rel, a)"
    and "ReadDir fs a = Inr entries"
  shows "\<exists>d. listHandler lower fs rootDir r = ExecuteTemplate ''index.html'' d
     \<and> mset (Rows d) =
         mset (map (\<lambda>e. row_of rel e (projr (Info e)))
                (filter (\<lambda>e. \<not> isl (Info e)
                    \<and> (Q d = [] \<or> Contains (ToLower lower (DirEntry.Name e)) (ToLower lower (Q d))))
                  entries))
     \<and> (Q d = [] \<longrightarrow>
          mset (Rows d) =
            mset (map (\<lambda>e. row_of rel e (projr (Info e)))
                   (filter (\<lambda>e. \<not> isl (Info e)) entries)))"
proof -
  let ?d = "\<lparr>Rows = sort_Slice (list_rows lower rel (TrimSpace (Get r ''q'')) entries)
                 (less_rows lower (projr (pick lower (Get r ''sort'') [''name'', ''size'', ''mod'']))
                            (projr (pick lower (Get r ''order'') [''asc'', ''desc'']))),
        Path = rel, Q = TrimSpace (Get r ''q''),
        Sort = projr (pick lower (Get r ''sort'') [''name'', ''size'', ''mod'']),
        Order = projr (pick lower (Get r ''order'') [''asc'', ''desc'']),
        Breadcrumbs = crumbsFor rel\<rparr>"
  have "listHandler lower fs rootDir r = ExecuteTemplate ''index.html'' ?d"
    by (rule listHandler_page [OF assms])
  moreover have "mset (Rows ?d) =
         mset (map (\<lambda>e. row_of rel e (projr (Info e)))
                (filter (\<lambda>e. \<not> isl (Info e)
                    \<and> (Q ?d = [] \<or> Contains (ToLower lower (DirEntry.Name e)) (ToLower lower (Q ?d))))
                  entries))"
    by (simp add: mset_sort_Slice list_rows_eq)
  moreover have "Q ?d = [] \<longrightarrow>
          mset (Rows ?d) =
            mset (map (\<lambda>e. row_of rel e (projr (Info e)))
                   (filter (\<lambda>e. \<not> isl (Info e)) entries))"
    by (simp add: mset_sort_Slice list_rows_eq)
  ultimately show ?thesis
    by blast
qed

theorem info_failure_omits_only_that_entry_witness:
  "\<forall>lower.
     resolve (Getwd ex_fs) ''/data'' (Get [] ''path'') = Some ([], ''/data'')
   \<and> ReadDir ex_fs ''/data'' = Inr ex_entries
   \<and> isl (Info (ex_entries ! 1))
   \<and> (\<exists>d. listHandler lower ex_fs ''/data'' [] = ExecuteTemplate ''index.html'' d
        \<and> Q d = []
        \<and> mset (map fileRow.Name (Rows d))
            = mset [''Readme.txt'', ''docs'', ''locked'', ''score.csv''])"
  (is "\<forall>lower. ?P lower")
proof
  fix lower :: "nat \<Rightarrow> nat"
  have res: "resolve (Getwd ex_fs) ''/data'' (Get [] ''path'') = Some ([], ''/data'')"
    by code_simp
  have rd: "ReadDir ex_fs ''/data'' = Inr ex_entries"
    by (simp add: ex_fs_def)
  have bad: "isl (Info (ex_entries ! 1))"
    by (simp add: ex_entries_def)
  have q: "TrimSpace (Get [] ''q'') = []"
    by code_simp
  have names: "map fileRow.Name (map (\<lambda>e. row_of [] e (projr (Info e)))
      (filter (\<lambda>e. \<not> isl (Info e)) ex_entries))
      = [''Readme.txt'', ''docs'', ''locked'', ''score.csv'']"
    by (simp add: ex_entries_def row_of_Name comp_def)
  from info_failure_omits_only_that_entry [where lower = lower, OF res rd]
  obtain d where d: "listHandler lower ex_fs ''/data'' [] = ExecuteTemplate ''index.html'' d"
    and all: "Q d = [] \<longrightarrow> mset (Rows d) =
            mset (map (\<lambda>e. row_of [] e (projr (Info e)))
                   (filter (\<lambda>e. \<not> isl (Info e)) ex_entries))"
    by blast
  have qd: "Q d = []"
    using listHandler_pageD(3) [OF d] q by simp
  with all have m: "mset (Rows d) =
            mset (map (\<lambda>e. row_of [] e (projr (Info e)))
                   (filter (\<lambda>e. \<not> isl (Info e)) ex_entries))"
    by blast
  have "mset (map fileRow.Name (Rows d)) = image_mset fileRow.Name (mset (Rows d))"
    by (simp only: mset_map)
  also have "\<dots> = mset (map fileRow.Name (map (\<lambda>e. row_of [] e (projr (Info e)))
          (filter (\<lambda>e. \<not> isl (Info e)) ex_entries)))"
    by (simp only: m mset_map)
  also note names
  finally have "mset (map fileRow.Name (Rows d))
      = mset [''Readme.txt'', ''docs'', ''locked'', ''score.csv'']" .
  with d qd have "\<exists>d. listHandler lower ex_fs ''/data'' [] = ExecuteTemplate ''index.html'' d
        \<and> Q d = []
        \<and> mset (map fileRow.Name (Rows d))
            = mset [''Readme.txt'', ''docs'', ''locked'', ''score.csv'']"
    by blast
  with res rd bad show "?P lower"
    by (intro conjI)
qed

text \<open>
  C8, as stated, fails: an input outside the enumerated set is still recognised when its
  lowercased form is in the set. \<^verbatim>\<open>SIZE\<close> is not one of \<^verbatim>\<open>name\<close>, \<^verbatim>\<open>size\<close>,
  \<^verbatim>\<open>mod\<close>, yet the effective sort key is \<^verbatim>\<open>size\<close>, not \<^verbatim>\<open>name\<close>; \<^verbatim>\<open>DESC\<close> is not
  one of \<^verbatim>\<open>asc\<close>, \<^verbatim>\<open>desc\<close>, yet the effective order is \<^verbatim>\<open>desc\<close>. So is, with a
  case table that maps \<^verbatim>\<open>U+0130\<close> (the capital I with a dot) to \<^verbatim>\<open>i\<close>, as Go's
  does, the input \<^verbatim>\<open>S\<close>, \<^verbatim>\<open>U+0130\<close>, \<^verbatim>\<open>ZE\<close>: the effective sort key is \<^verbatim>\<open>size\<close>.
\<close>

theorem unrecognized_fallback_counterexample:
  "\<forall>lower.
     ''SIZE'' \<notin> {''name'', ''size'', ''mod''}
   \<and> pick lower ''SIZE'' [''name'', ''size'', ''mod''] = Inr ''size''
   \<and> ''DESC'' \<notin> {''asc'', ''desc''}
   \<and> pick lower ''DESC'' [''asc'', ''desc''] = Inr ''desc''
   \<and> listHandler lower ex_fs ''/data'' [(''sort'', ''SIZE''), (''order'', ''DESC'')]
       = ExecuteTemplate ''index.html''
           \<lparr>Rows = sort_Slice (list_rows lower [] [] ex_entries) (less_rows lower ''size'' ''desc''),
            Path = [], Q = [], Sort = ''size'', Order = ''desc'', Breadcrumbs = []\<rparr>
   \<and> [CHR ''S'', CHR 0xC4, CHR 0xB0, CHR ''Z'', CHR ''E''] \<notin> {''name'', ''size'', ''mod''}
   \<and> pick (lower(0x130 := 0x69)) [CHR ''S'', CHR 0xC4, CHR 0xB0, CHR ''Z'', CHR ''E'']
        [''name'', ''size'', ''mod''] = Inr ''size''"
  (is "\<forall>lower. ?P lower")
proof
  fix lower :: "nat \<Rightarrow> nat"
  let ?r = "[(''sort'', ''SIZE''), (''order'', ''DESC'')]"
  have low: "ToLower lower ''SIZE'' = ''size''" "ToLower lower ''DESC'' = ''desc''"
    by code_simp+
  have uni: "ToLower (lower(0x130 := 0x69)) [CHR ''S'', CHR 0xC4, CHR 0xB0, CHR ''Z'', CHR ''E'']
      = ''size''"
    by code_simp
  have res: "resolve (Getwd ex_fs) ''/data'' (Get ?r ''path'') = Some ([], ''/data'')"
    by code_simp
  have rd: "ReadDir ex_fs ''/data'' = Inr ex_entries"
    by (simp add: ex_fs_def)
  have q: "TrimSpace [] = []"
    by code_simp
  show "?P lower"
    by (simp add: listHandler_page [OF res rd] pick_Cons low uni q crumbsFor_def)
qed

text \<open>
  C8, amended. For every input of the sort parameter whose lowercased form is outside
  \<^verbatim>\<open>name\<close>, \<^verbatim>\<open>size\<close>, \<^verbatim>\<open>mod\<close> the effective sort key is \<^verbatim>\<open>name\<close>, and for every
  input of the order parameter whose lowercased form is outside \<^verbatim>\<open>asc\<close>, \<^verbatim>\<open>desc\<close> the
  effective order is \<^verbatim>\<open>asc\<close>; \<^verbatim>\<open>pick\<close> returns a value for every input and the
  handler never panics. The lowercased form is that of \<^verbatim>\<open>strings.ToLower\<close>, for
  whatever case table.
\<close>

theorem unrecognized_lowercased_falls_back:
  "(ToLower lower s \<notin> {''name'', ''size'', ''mod''} \<longrightarrow> pick lower s [''name'', ''size'', ''mod''] = Inr ''name'')
   \<and> (ToLower lower ord \<notin> {''asc'', ''desc''} \<longrightarrow> pick lower ord [''asc'', ''desc''] = Inr ''asc'')
   \<and> pick lower s [''name'', ''size'', ''mod''] \<noteq> Inl e
   \<and> pick lower ord [''asc'', ''desc''] \<noteq> Inl e
   \<and> listHandler lower fs rootDir r \<noteq> Panic e
   \<and> (listHandler lower fs rootDir r = ExecuteTemplate t d \<longrightarrow>
        (ToLower lower (Get r ''sort'') \<notin> {''name'', ''size'', ''mod''} \<longrightarrow> Sort d = ''name'')
        \<and> (ToLower lower (Get r ''order'') \<notin> {''asc'', ''desc''} \<longrightarrow> Order d = ''asc''))"
proof (intro conjI impI)
  show "pick lower s [''name'', ''size'', ''mod''] = Inr ''name''"
    if "ToLower lower s \<notin> {''name'', ''size'', ''mod''}"
    using that by (simp add: pick_Cons)
  show "pick lower ord [''asc'', ''desc''] = Inr ''asc''" if "ToLower lower ord \<notin> {''asc'', ''desc''}"
    using that by (simp add: pick_Cons)
  show "pick lower s [''name'', ''size'', ''mod''] \<noteq> Inl e"
    by (simp only: pick_Cons) simp
  show "pick lower ord [''asc'', ''desc''] \<noteq> Inl e"
    by (simp only: pick_Cons) simp
  show "listHandler lower fs rootDir r \<noteq> Panic e"
    by (simp add: listHandler_resolve split: option.splits sum.splits)
next
  assume h: "listHandler lower fs rootDir r = ExecuteTemplate t d"
  note S = listHandler_pageD(1) [OF h] and O = listHandler_pageD(2) [OF h]
  show "Sort d = ''name''" if "ToLower lower (Get r ''sort'') \<notin> {''name'', ''size'', ''mod''}"
    using that unfolding S by (simp add: pick_Cons)
  show "Order d = ''asc''" if "ToLower lower (Get r ''order'') \<notin> {''asc'', ''desc''}"
    using that unfolding O by (simp add: pick_Cons)
qed

theorem unrecognized_lowercased_falls_back_witness:
  "\<forall>lower.
     ToLower lower ''Date'' \<notin> {''name'', ''size'', ''mod''}
   \<and> pick lower ''Date'' [''name'', ''size'', ''mod''] = Inr ''name''
   \<and> ToLower lower ''down'' \<notin> {''asc'', ''desc''}
   \<and> pick lower ''down'' [''asc'', ''desc''] = Inr ''asc''
   \<and> listHandler lower ex_fs ''/data'' [(''sort'', ''Date''), (''order'', ''down'')]
       = ExecuteTemplate ''index.html''
           \<lparr>Rows = sort_Slice (list_rows lower [] [] ex_entries) (less_rows lower ''name'' ''asc''),
            Path = [], Q = [], Sort = ''name'', Order = ''asc'', Breadcrumbs = []\<rparr>"
  (is "\<forall>lower. ?P lower")
proof
  fix lower :: "nat \<Rightarrow> nat"
  let ?r = "[(''sort'', ''Date''), (''order'', ''down'')]"
  let ?d = "\<lparr>Rows = sort_Slice (list_rows lower [] [] ex_entries) (less_rows lower ''name'' ''asc''),
            Path = [], Q = [], Sort = ''name'', Order = ''asc'', Breadcrumbs = []\<rparr>"
  have low: "ToLower lower ''Date'' = ''date''" "ToLower lower ''down'' = ''down''"
    by code_simp+
  have res: "resolve (Getwd ex_fs) ''/data'' (Get ?r ''path'') = Some ([], ''/data'')"
    by code_simp
  have rd: "ReadDir ex_fs ''/data'' = Inr ex_entries"
    by (simp add: ex_fs_def)
  have q: "TrimSpace [] = []"
    by code_simp
  have page: "listHandler lower ex_fs ''/data'' ?r = ExecuteTemplate ''index.html'' ?d"
    by (simp add: listHandler_page [OF res rd] pick_Cons low q crumbsFor_def)
  from unrecognized_lowercased_falls_back
         [where lower = lower and s = "''Date''" and ord = "''down''" and fs = ex_fs
            and rootDir = "''/data''" and r = ?r and t = "''index.html''" and d = ?d]
       page low
  show "?P lower"
    by simp
qed




text \<open>
  C10. \<^verbatim>\<open>pick\<close> lowercases its input before it compares: the result is the lowercased
  input when that is one of the options and the first option otherwise, so
  \<^verbatim>\<open>order=DESC\<close> selects \<^verbatim>\<open>desc\<close>; the sort key and the order that a listing echoes
  are always among the enumerated options, and are the lowercased input when that is an
  option. The lowercasing is that of Unicode: with a case table that maps \<^verbatim>\<open>U+0130\<close>
  (the capital I with a dot) to \<^verbatim>\<open>i\<close>, as Go's does, the input \<^verbatim>\<open>S\<close>, \<^verbatim>\<open>U+0130\<close>,
  \<^verbatim>\<open>ZE\<close> selects \<^verbatim>\<open>size\<close>.
\<close>

theorem pick_matches_lowercased_input:
  "pick lower v (opt # opts) = Inr (if ToLower lower v \<in> set (opt # opts) then ToLower lower v else opt)
   \<and> pick lower ''DESC'' [''asc'', ''desc''] = Inr ''desc''
   \<and> (lower 0x130 = 0x69 \<longrightarrow>
        pick lower [CHR ''S'', CHR 0xC4, CHR 0xB0, CHR ''Z'', CHR ''E''] [''name'', ''size'', ''mod'']
          = Inr ''size'')
   \<and> (listHandler lower fs rootDir r = ExecuteTemplate t d \<longrightarrow>
        Sort d \<in> {''name'', ''size'', ''mod''} \<and> Order d \<in> {''asc'', ''desc''}
        \<and> (ToLower lower (Get r ''sort'') \<in> {''name'', ''size'', ''mod''}
              \<longrightarrow> Sort d = ToLower lower (Get r ''sort''))
        \<and> (ToLower lower (Get r ''order'') \<in> {''asc'', ''desc''}
              \<longrightarrow> Order d = ToLower lower (Get r ''order'')))"
proof (intro conjI impI)
  show "pick lower v (opt # opts) = Inr (if ToLower lower v \<in> set (opt # opts) then ToLower lower v else opt)"
    by (rule pick_Cons)
  have "ToLower lower ''DESC'' = ''desc''"
    by code_simp
  then show "pick lower ''DESC'' [''asc'', ''desc''] = Inr ''desc''"
    by (simp add: pick_Cons)
next
  assume "lower 0x130 = 0x69"
  then have "lower(0x130 := 0x69) = lower"
    by (simp add: fun_upd_idem)
  moreover have "ToLower (lower(0x130 := 0x69)) [CHR ''S'', CHR 0xC4, CHR 0xB0, CHR ''Z'', CHR ''E'']
      = ''size''"
    by code_simp
  ultimately have "ToLower lower [CHR ''S'', CHR 0xC4, CHR 0xB0, CHR ''Z'', CHR ''E''] = ''size''"
    by simp
  then show "pick lower [CHR ''S'', CHR 0xC4, CHR 0xB0, CHR ''Z'', CHR ''E''] [''name'', ''size'', ''mod'']
      = Inr ''size''"
    by (simp add: pick_Cons)
next
  assume h: "listHandler lower fs rootDir r = ExecuteTemplate t d"
  note S = listHandler_pageD(1) [OF h] and O = listHandler_pageD(2) [OF h]
  show "Sort d \<in> {''name'', ''size'', ''mod''}"
    unfolding S pick_Cons by (simp del: set_simps) auto
  show "Order d \<in> {''asc'', ''desc''}"
    unfolding O pick_Cons by (simp del: set_simps) auto
  show "Sort d = ToLower lower (Get r ''sort'')"
    if "ToLower lower (Get r ''sort'') \<in> {''name'', ''size'', ''mod''}"
    using that unfolding S pick_Cons by auto
  show "Order d = ToLower lower (Get r ''order'')"
    if "ToLower lower (Get r ''order'') \<in> {''asc'', ''desc''}"
    using that unfolding O pick_Cons by auto
qed

theorem pick_matches_lowercased_input_witness:
  "\<forall>lower.
     listHandler lower ex_fs ''/data'' [(''path'', ''locked/..''), (''sort'', ''Mod''), (''order'', ''DESC'')]
       = ExecuteTemplate ''index.html''
           \<lparr>Rows = sort_Slice (list_rows lower [] [] ex_entries) (less_rows lower ''mod'' ''desc''),
            Path = [], Q = [], Sort = ''mod'', Order = ''desc'', Breadcrumbs = []\<rparr>
   \<and> ToLower lower ''Mod'' = ''mod'' \<and> ToLower lower ''DESC'' = ''desc''
   \<and> Sort \<lparr>Rows = sort_Slice (list_rows lower [] [] ex_entries) (less_rows lower ''mod'' ''desc''),
            Path = [], Q = [], Sort = ''mod'', Order = ''desc'', Breadcrumbs = []\<rparr>
       \<in> {''name'', ''size'', ''mod''}
   \<and> (lower(0x130 := 0x69)) 0x130 = 0x69
   \<and> pick (lower(0x130 := 0x69)) [CHR ''S'', CHR 0xC4, CHR 0xB0, CHR ''Z'', CHR ''E'']
        [''name'', ''size'', ''mod''] = Inr ''size''"
  (is "\<forall>lower. ?P lower")
proof
  fix lower :: "nat \<Rightarrow> nat"
  let ?r = "[(''path'', ''locked/..''), (''sort'', ''Mod''), (''order'', ''DESC'')]"
  let ?d = "\<lparr>Rows = sort_Slice (list_rows lower [] [] ex_entries) (less_rows lower ''mod'' ''desc''),
          Path = [], Q = [], Sort = ''mod'', Order = ''desc'', Breadcrumbs = []\<rparr>"
  have res: "resolve (Getwd ex_fs) ''/data'' (Get ?r ''path'') = Some ([], ''/data'')"
    by code_simp
  have rd: "ReadDir ex_fs ''/data'' = Inr ex_entries"
    by (simp add: ex_fs_def)
  have low: "ToLower lower ''Mod'' = ''mod''" "ToLower lower ''DESC'' = ''desc''"
    by code_simp+
  have q: "TrimSpace [] = []"
    by code_simp
  have page: "listHandler lower ex_fs ''/data'' ?r = ExecuteTemplate ''index.html'' ?d"
    by (simp add: listHandler_page [OF res rd] pick_Cons low q crumbsFor_def)
  have tab: "(lower(0x130 := 0x69)) 0x130 = 0x69"
    by simp
  from pick_matches_lowercased_input [where lower = "lower(0x130 := 0x69)"] tab
  have uni: "pick (lower(0x130 := 0x69)) [CHR ''S'', CHR 0xC4, CHR 0xB0, CHR ''Z'', CHR ''E'']
        [''name'', ''size'', ''mod''] = Inr ''size''"
    by blast
  from pick_matches_lowercased_input
         [where lower = lower and fs = ex_fs and rootDir = "''/data''" and r = ?r
            and t = "''index.html''" and d = ?d]
       page low
  have "listHandler lower ex_fs ''/data'' ?r = ExecuteTemplate ''index.html'' ?d
   \<and> ToLower lower ''Mod'' = ''mod'' \<and> ToLower lower ''DESC'' = ''desc''
   \<and> Sort ?d \<in> {''name'', ''size'', ''mod''}"
    by simp
  with tab uni show "?P lower"
    by simp
qed

end
